theory Spec2Isabelle
  imports Complex_Main "HOL-Library.Log_Nat" "HOL-Library.Multiset"
begin

unbundle bit_operations_syntax

section \<open>JavaScript values used by the generator\<close>

text \<open>
  A JavaScript string is a sequence of UTF-16 code units; \<open>charCodeAt\<close> reads one of
  them. An array is a list whose entries may be \<open>undefined\<close> (\<open>None\<close>): reading past
  the end yields \<open>undefined\<close>, writing past the end extends the array.
\<close>

type_synonym js_string = "nat list"

definition js_str :: "string \<Rightarrow> js_string" where
  "js_str s = map of_char s"

definition js_get :: "'a option list \<Rightarrow> nat \<Rightarrow> 'a option" where
  "js_get xs i = (if i < length xs then xs ! i else None)"

definition js_set :: "'a option list \<Rightarrow> nat \<Rightarrow> 'a option \<Rightarrow> 'a option list" where
  "js_set xs i v =
     (if i < length xs then xs[i := v]
      else xs @ replicate (i - length xs) None @ [v])"

text \<open>\<open>[result[i], result[j]] = [result[j], result[i]]\<close>: both reads, then both writes.\<close>

definition js_swap :: "nat \<Rightarrow> nat \<Rightarrow> 'a option list \<Rightarrow> 'a option list" where
  "js_swap i j xs = js_set (js_set xs i (js_get xs j)) j (js_get xs i)"

text \<open>\<open>ToInt32\<close>, the conversion behind \<open><<\<close>, \<open>|\<close> and \<open>&\<close>.\<close>

definition toInt32 :: "int \<Rightarrow> int" where
  "toInt32 x = (let m = x mod 2 ^ 32 in if 2 ^ 31 \<le> m then m - 2 ^ 32 else m)"

text \<open>
  A number is an IEEE double. On the non-negative integers the generator multiplies and
  adds, the result of an operation is the exact result rounded to 53 significant bits,
  ties to even.
\<close>

definition fl53 :: "int \<Rightarrow> int" where
  "fl53 n =
     (if n < 2 ^ 53 then n
      else let e = nat (bitlen n - 53);
               q = n div 2 ^ e;
               r = n mod 2 ^ e;
               h = 2 ^ (e - 1)
           in if r < h \<or> (r = h \<and> even q) then q * 2 ^ e else (q + 1) * 2 ^ e)"

text \<open>\<open>Math.round\<close> rounds to the nearest integer, halves upwards.\<close>

definition Math_round :: "rat \<Rightarrow> int" where
  "Math_round x = \<lfloor>x + 1 / 2\<rfloor>"

text \<open>
  Away from the integers a number is still an IEEE double: a rational whose significand
  has at most 53 bits. The range of the exponent is not modelled: the product of a count
  and a probability does not overflow, and where it is subnormal it is exact.
  \<open>binade x\<close> is the exponent of a positive \<open>x\<close>, the integer \<open>e\<close> with
  \<open>2^e \<le> x < 2^(e+1)\<close>; \<open>round_even\<close> is the nearest integer, a half going to the
  even neighbour; \<open>to_double x\<close> is the double nearest to \<open>x\<close>, and \<open>is_double\<close> holds
  of the rationals that are doubles.
\<close>

definition binade :: "rat \<Rightarrow> int" where
  "binade x = (if 1 \<le> x then bitlen \<lfloor>x\<rfloor> - 1 else - bitlen (\<lceil>1 / x\<rceil> - 1))"

definition round_even :: "rat \<Rightarrow> int" where
  "round_even y =
     (let f = \<lfloor>y\<rfloor>; r = y - of_int f
      in if r < 1 / 2 \<or> (r = 1 / 2 \<and> even f) then f else f + 1)"

definition to_double :: "rat \<Rightarrow> rat" where
  "to_double x =
     (if x = 0 then 0
      else let u = power_int 2 (binade \<bar>x\<bar> - 52)
           in sgn x * (of_int (round_even (\<bar>x\<bar> / u)) * u))"

definition is_double :: "rat \<Rightarrow> bool" where
  "is_double x \<longleftrightarrow> to_double x = x"

text \<open>
  \<open>x * y\<close> on two numbers is the exact product rounded to a double. A rational that is
  not a double is not a value the program can hold (among the naturals these are counts
  of \<open>2^53\<close> and more); on such an operand the exact product is kept.
\<close>

definition js_times :: "rat \<Rightarrow> rat \<Rightarrow> rat" where
  "js_times x y = (if is_double x \<and> is_double y then to_double (x * y) else x * y)"

section \<open>SeededRandom\<close>

fun hashLoop :: "int \<Rightarrow> js_string \<Rightarrow> int" where
  "hashLoop hash [] = hash"
| "hashLoop hash (c # cs) = hashLoop (toInt32 (toInt32 (hash * 32) - hash + int c)) cs"

definition hashString :: "js_string \<Rightarrow> int" where
  "hashString str = \<bar>hashLoop 0 str\<bar>"

text \<open>The state update of \<open>next\<close>: \<open>(this.seed * 1103515245 + 12345) & 0x7fffffff\<close>.\<close>

definition next_seed :: "int \<Rightarrow> int" where
  "next_seed seed = toInt32 (fl53 (fl53 (seed * 1103515245) + 12345)) AND 0x7fffffff"

text \<open>
  \<open>next\<close> returns \<open>this.seed / 0x7fffffff\<close> and leaves the new seed in the object. The
  quotient is kept exact here; the double the code returns is its rounding.
\<close>

definition SeededRandom_next :: "int \<Rightarrow> rat \<times> int" where
  "SeededRandom_next seed = (let seed' = next_seed seed in (of_int seed' / 0x7fffffff, seed'))"

text \<open>
  The shuffle loop, \<open>i\<close> running from \<open>length - 1\<close> down to \<open>1\<close>. The index \<open>j\<close>
  is the floor of the exact product; the code takes the floor of the product of doubles.
\<close>

fun shuffle_loop :: "nat \<Rightarrow> 'a option list \<Rightarrow> int \<Rightarrow> 'a option list \<times> int" where
  "shuffle_loop 0 result seed = (result, seed)"
| "shuffle_loop (Suc k) result seed =
     (let i = Suc k;
          (x, seed') = SeededRandom_next seed;
          j = nat \<lfloor>x * of_nat (i + 1)\<rfloor>
      in shuffle_loop k (js_swap i j result) seed')"

definition shuffle :: "'a option list \<Rightarrow> int \<Rightarrow> 'a option list \<times> int" where
  "shuffle arr seed = shuffle_loop (length arr - 1) arr seed"

text \<open>The seed after \<open>n\<close> calls of \<open>next\<close> on a generator built from a string.\<close>

fun seed_after :: "nat \<Rightarrow> js_string \<Rightarrow> int" where
  "seed_after 0 str = hashString str"
| "seed_after (Suc n) str = next_seed (seed_after n str)"

definition next_value :: "nat \<Rightarrow> js_string \<Rightarrow> rat" where
  "next_value n str = fst (SeededRandom_next (seed_after n str))"

section \<open>Balanced defaults\<close>

datatype choice = A | B

datatype js_error = RangeError | TypeError

record RoundDefaults =
  d_round :: nat
  d_trueState :: nat
  d_senderDefault :: "choice option"
  d_receiverDefault :: "choice option"

text \<open>
  The loop of \<open>generateBalancedDefaults\<close>; the first argument counts the iterations
  left, \<open>i\<close> is the loop variable.
\<close>

fun results_loop ::
  "nat \<Rightarrow> nat \<Rightarrow> nat \<Rightarrow> nat \<Rightarrow> nat option list \<Rightarrow>
   choice option list \<Rightarrow> choice option list \<Rightarrow> choice option list \<Rightarrow> choice option list \<Rightarrow>
   RoundDefaults list \<Rightarrow> RoundDefaults list" where
  "results_loop 0 i idx1 idx2 sts s1 s2 r1 r2 results = results"
| "results_loop (Suc k) i idx1 idx2 sts s1 s2 r1 r2 results =
     (if js_get sts i = Some 1
      then results_loop k (i + 1) (idx1 + 1) idx2 sts s1 s2 r1 r2
             (results @ [\<lparr>d_round = i + 1, d_trueState = 1,
                          d_senderDefault = js_get s1 idx1,
                          d_receiverDefault = js_get r1 idx1\<rparr>])
      else results_loop k (i + 1) idx1 (idx2 + 1) sts s1 s2 r1 r2
             (results @ [\<lparr>d_round = i + 1, d_trueState = 2,
                          d_senderDefault = js_get s2 idx2,
                          d_receiverDefault = js_get r2 idx2\<rparr>]))"

text \<open>
  \<open>[...Array(a).fill(x), ...Array(b).fill(y)]\<close>; \<open>Array\<close> of a negative length throws.
  The number of rounds is a natural number; the probability is the rational value of the
  double the configuration holds (the literal \<open>0.3\<close> is \<open>5404319552844595 / 2^54\<close>).
  \<open>Math.round\<close> is applied to their product as a double.
\<close>

definition fill2 :: "nat \<Rightarrow> 'a \<Rightarrow> nat \<Rightarrow> 'a \<Rightarrow> 'a option list" where
  "fill2 a x b y = replicate a (Some x) @ replicate b (Some y)"

definition generateBalancedDefaults ::
  "nat \<Rightarrow> rat \<Rightarrow> js_string \<Rightarrow> js_error + RoundDefaults list" where
  "generateBalancedDefaults numRounds state1Probability seed =
     (let rng = hashString seed;
          numState1 = Math_round (js_times (of_nat numRounds) state1Probability);
          numState2 = int numRounds - numState1
      in if numState1 < 0 \<or> numState2 < 0 then Inl RangeError
         else
           let (shuffledStates, rng) = shuffle (fill2 (nat numState1) (1::nat) (nat numState2) 2) rng;
               state1ACount = nat numState1 div 2;
               state1BCount = nat numState1 - state1ACount;
               state2ACount = nat numState2 div 2;
               state2BCount = nat numState2 - state2ACount;
               (senderDefaultsState1, rng) = shuffle (fill2 state1ACount A state1BCount B) rng;
               (senderDefaultsState2, rng) = shuffle (fill2 state2ACount A state2BCount B) rng;
               (receiverDefaultsState1, rng) = shuffle (fill2 state1ACount A state1BCount B) rng;
               (receiverDefaultsState2, rng) = shuffle (fill2 state2ACount A state2BCount B) rng
           in Inr (results_loop numRounds 0 0 0 shuffledStates
                     senderDefaultsState1 senderDefaultsState2
                     receiverDefaultsState1 receiverDefaultsState2 []))"

text \<open>\<open>allDefaults[roundNumber - 1]\<close>; a caller that reads a field of \<open>undefined\<close> throws.\<close>

definition getRoundDefault ::
  "nat \<Rightarrow> nat \<Rightarrow> rat \<Rightarrow> js_string \<Rightarrow> js_error + RoundDefaults option" where
  "getRoundDefault roundNumber numRounds state1Probability participantPairSeed =
     (case generateBalancedDefaults numRounds state1Probability participantPairSeed of
        Inl e \<Rightarrow> Inl e
      | Inr allDefaults \<Rightarrow>
          Inr (if 1 \<le> roundNumber \<and> roundNumber \<le> length allDefaults
               then Some (allDefaults ! (roundNumber - 1)) else None))"

text \<open>
  The number of rounds of one hidden state in which a role's default is a given choice.
\<close>

definition bucket_count ::
  "(RoundDefaults \<Rightarrow> choice option) \<Rightarrow> nat \<Rightarrow> choice \<Rightarrow> RoundDefaults list \<Rightarrow> nat" where
  "bucket_count sel st c rs = length (filter (\<lambda>r. d_trueState r = st \<and> sel r = Some c) rs)"

text \<open>The number of rounds of one hidden state.\<close>

definition bucket_size :: "nat \<Rightarrow> RoundDefaults list \<Rightarrow> nat" where
  "bucket_size st rs = length (filter (\<lambda>r. d_trueState r = st) rs)"

text \<open>The double that the literal \<open>0.3\<close> denotes.\<close>

definition three_tenths :: rat where
  "three_tenths = 5404319552844595 / 18014398509481984"

section \<open>Stage configuration and public data\<close>

text \<open>
  The fields of \<open>SenderReceiverStageConfig\<close> that the server reads. The default values
  are those of \<open>createSenderReceiverStage\<close>.
\<close>

record Config =
  numRounds :: nat
  state1Probability :: "rat option"
  requireParticipantClick :: bool
  enableBalancedDefaults :: bool
  payoffSenderChoiceA :: int
  payoffSenderChoiceB1 :: int
  payoffSenderChoiceB2 :: int
  payoffReceiverChoiceA :: int
  payoffReceiverChoiceB1 :: int
  payoffReceiverChoiceB2 :: int

definition createSenderReceiverStage :: Config where
  "createSenderReceiverStage =
     \<lparr>numRounds = 4, state1Probability = Some (1 / 2),
      requireParticipantClick = True, enableBalancedDefaults = True,
      payoffSenderChoiceA = 30, payoffSenderChoiceB1 = 0, payoffSenderChoiceB2 = 20,
      payoffReceiverChoiceA = 20, payoffReceiverChoiceB1 = 36, payoffReceiverChoiceB2 = 4\<rparr>"

datatype status =
  WAITING_BOTH_START | WAITING_SENDER_DECIDE | WAITING_RECEIVER_DECIDE | SHOW_FEEDBACK

text \<open>
  A field that the code compares with \<open>=== null\<close> keeps \<open>undefined\<close> (the property is
  absent) apart from \<open>null\<close>. Every other nullable field is an \<open>option\<close>, \<open>None\<close>
  standing for \<open>null\<close> or an absent property: the code only tests those for truthiness.
\<close>

datatype 'a js_field = Undefined | Null | Val 'a

type_synonym timestamp = int

record RoundData =
  roundNumber :: nat
  trueState :: nat
  status :: status
  senderReadyStart :: "bool option"
  receiverReadyStart :: "bool option"
  senderChoice :: "choice js_field"
  senderLabel :: "choice js_field"
  senderMessage :: "string option"
  receiverChoice :: "choice option"
  defaultSenderChoice :: "choice js_field"
  defaultSenderLabel :: "choice js_field"
  defaultReceiverChoice :: "choice option"
  senderTimedOut :: bool
  receiverTimedOut :: bool
  senderPayoff :: "int option"
  receiverPayoff :: "int option"
  senderReadyNext :: "bool option"
  receiverReadyNext :: "bool option"
  startTime :: "timestamp option"
  senderUnlockedTime :: "timestamp option"
  senderSubmittedTime :: "timestamp option"
  receiverSawMessageTime :: "timestamp option"
  receiverUnlockedTime :: "timestamp option"
  receiverSubmittedTime :: "timestamp option"
  senderReactionTimeSeconds :: "rat option"
  receiverReactionTimeSeconds :: "rat option"
  senderActiveTimeSeconds :: "rat option"
  receiverActiveTimeSeconds :: "rat option"

record PublicData =
  senderId :: "string option"
  receiverId :: "string option"
  currentRound :: nat
  roundMap :: "nat \<rightharpoonup> RoundData"

definition createSenderReceiverStagePublicData :: PublicData where
  "createSenderReceiverStagePublicData =
     \<lparr>senderId = None, receiverId = None, currentRound = 1, roundMap = Map.empty\<rparr>"

section \<open>Requests\<close>

datatype action =
  assign_role | start_game | sender_signal | receiver_saw_message | receiver_choice | next_round

datatype role = sender | receiver

record Payload =
  pl_senderChoice :: "choice option"
  pl_senderMessage :: "string option"
  pl_receiverChoice :: "choice option"
  pl_participantId :: "string option"
  pl_requestedRole :: "role option"
  pl_activeTimeSeconds :: "rat option"
  pl_isTimedOut :: "bool option"

text \<open>A request without payload reads \<open>undefined\<close> from every \<open>payload?.field\<close>.\<close>

definition no_payload :: Payload where
  "no_payload =
     \<lparr>pl_senderChoice = None, pl_senderMessage = None, pl_receiverChoice = None,
      pl_participantId = None, pl_requestedRole = None, pl_activeTimeSeconds = None,
      pl_isTimedOut = None\<rparr>"

datatype code =
  unauthenticated | not_found | permission_denied | failed_precondition | invalid_argument

datatype error = HttpsError code string | Thrown js_error

text \<open>A document of the cohort's \<open>publicStageData\<close> collection, as the history check reads it.\<close>

record StageDoc =
  doc_id :: string
  doc_isSenderReceiver :: bool
  doc_senderId :: "string option"
  doc_receiverId :: "string option"

section \<open>Helpers of the endpoint\<close>

text \<open>\<open>!id\<close>: \<open>null\<close> and the empty string are falsy.\<close>

definition falsy :: "string option \<Rightarrow> bool" where
  "falsy x = (case x of None \<Rightarrow> True | Some s \<Rightarrow> s = [])"

definition truthy :: "bool option \<Rightarrow> bool" where
  "truthy x = (x = Some True)"

text \<open>A template literal prints \<open>null\<close> for a missing id.\<close>

definition id_text :: "string option \<Rightarrow> string" where
  "id_text x = (case x of None \<Rightarrow> ''null'' | Some s \<Rightarrow> s)"

definition pairSeed :: "PublicData \<Rightarrow> string \<Rightarrow> js_string" where
  "pairSeed publicData stageId =
     js_str (id_text (senderId publicData) @ ''-'' @ id_text (receiverId publicData) @ ''-'' @ stageId)"

definition probability :: "Config \<Rightarrow> rat" where
  "probability config = (case state1Probability config of None \<Rightarrow> 1 / 2 | Some p \<Rightarrow> p)"

text \<open>
  \<open>getRoundDefault(...)\<close> followed by a field access, which throws a \<open>TypeError\<close> on
  \<open>undefined\<close>.
\<close>

definition roundDefaults :: "nat \<Rightarrow> Config \<Rightarrow> js_string \<Rightarrow> error + RoundDefaults" where
  "roundDefaults roundNumber' config seed =
     (case getRoundDefault roundNumber' (numRounds config) (probability config) seed of
        Inl e \<Rightarrow> Inl (Thrown e)
      | Inr None \<Rightarrow> Inl (Thrown TypeError)
      | Inr (Some d) \<Rightarrow> Inr d)"

definition createNewRound ::
  "nat \<Rightarrow> Config \<Rightarrow> js_string \<Rightarrow> bool \<Rightarrow> timestamp \<Rightarrow> error + RoundData" where
  "createNewRound roundNumber' config seed isFirstRound now =
     (case roundDefaults roundNumber' config seed of
        Inl e \<Rightarrow> Inl e
      | Inr d \<Rightarrow>
          Inr \<lparr>roundNumber = roundNumber',
               trueState = d_trueState d,
               status = (if isFirstRound then WAITING_BOTH_START else WAITING_SENDER_DECIDE),
               senderReadyStart = Some False,
               receiverReadyStart = Some False,
               senderChoice = Undefined,
               senderLabel = Null,
               senderMessage = None,
               receiverChoice = None,
               defaultSenderChoice = Undefined,
               defaultSenderLabel = Null,
               defaultReceiverChoice = None,
               senderTimedOut = False,
               receiverTimedOut = False,
               senderPayoff = None,
               receiverPayoff = None,
               senderReadyNext = None,
               receiverReadyNext = None,
               startTime = (if isFirstRound then None else Some now),
               senderUnlockedTime = (if isFirstRound then None else Some now),
               senderSubmittedTime = None,
               receiverSawMessageTime = None,
               receiverUnlockedTime = None,
               receiverSubmittedTime = None,
               senderReactionTimeSeconds = None,
               receiverReactionTimeSeconds = None,
               senderActiveTimeSeconds = None,
               receiverActiveTimeSeconds = None\<rparr>)"

text \<open>
  \<open>startGameIfReady\<close> returns \<open>null\<close> (\<open>None\<close>) or the update that stores round 1 and
  sets \<open>currentRound\<close> to 1; the value here is the new round.
\<close>

definition startGameIfReady ::
  "PublicData \<Rightarrow> Config \<Rightarrow> string \<Rightarrow> timestamp \<Rightarrow> error + RoundData option" where
  "startGameIfReady publicData config stageId now =
     (if falsy (senderId publicData) \<or> falsy (receiverId publicData) then Inr None
      else if roundMap publicData 1 \<noteq> None then Inr None
      else case createNewRound 1 config (pairSeed publicData stageId) True now of
             Inl e \<Rightarrow> Inl e
           | Inr firstRound \<Rightarrow> Inr (Some firstRound))"

definition calculatePayoffs :: "choice \<Rightarrow> nat \<Rightarrow> Config \<Rightarrow> int \<times> int" where
  "calculatePayoffs choice' trueState' config =
     (if choice' = A then (payoffSenderChoiceA config, payoffReceiverChoiceA config)
      else if trueState' = 1 then (payoffSenderChoiceB1 config, payoffReceiverChoiceB1 config)
      else (payoffSenderChoiceB2 config, payoffReceiverChoiceB2 config))"

text \<open>The history check of \<open>assign_role\<close>: the last matching document wins.\<close>

fun historicalRole :: "string \<Rightarrow> string \<Rightarrow> StageDoc list \<Rightarrow> role option \<Rightarrow> role option" where
  "historicalRole stageId userId [] h = h"
| "historicalRole stageId userId (d # ds) h =
     (if doc_id d = stageId then historicalRole stageId userId ds h
      else if doc_isSenderReceiver d then
        (let h1 = (if doc_senderId d = Some userId then Some sender else h);
             h2 = (if doc_receiverId d = Some userId then Some receiver else h1)
         in historicalRole stageId userId ds h2)
      else historicalRole stageId userId ds h)"

definition role_name :: "role \<Rightarrow> string" where
  "role_name r = (case r of sender \<Rightarrow> ''sender'' | receiver \<Rightarrow> ''receiver'')"

definition status_name :: "status \<Rightarrow> string" where
  "status_name s =
     (case s of WAITING_BOTH_START \<Rightarrow> ''WAITING_BOTH_START''
      | WAITING_SENDER_DECIDE \<Rightarrow> ''WAITING_SENDER_DECIDE''
      | WAITING_RECEIVER_DECIDE \<Rightarrow> ''WAITING_RECEIVER_DECIDE''
      | SHOW_FEEDBACK \<Rightarrow> ''SHOW_FEEDBACK'')"

text \<open>\<open>transaction.update\<close> of fields \<open>roundMap.N.*\<close>: the round read, with the new fields.\<close>

definition put_round :: "PublicData \<Rightarrow> nat \<Rightarrow> RoundData \<Rightarrow> PublicData" where
  "put_round publicData n r = publicData\<lparr>roundMap := (roundMap publicData)(n \<mapsto> r)\<rparr>"

section \<open>The transaction of \<open>submitSenderReceiverAction\<close>\<close>

text \<open>
  Every handler maps the document read at the start of the transaction to \<open>Inl\<close> of the
  error thrown, in which case nothing is written, or to \<open>Inr\<close> of the document as the
  transaction's updates leave it. \<open>now\<close> is the value of \<open>Timestamp.now()\<close>.
\<close>

text \<open>
  The end of \<open>assign_role\<close>: the id is put into \<open>updates\<close>, \<open>startGameIfReady\<close> runs
  on the simulated data, and one \<open>transaction.update\<close> writes the lot.
\<close>

definition assign ::
  "PublicData \<Rightarrow> Config \<Rightarrow> string \<Rightarrow> timestamp \<Rightarrow> string \<Rightarrow> role \<Rightarrow> error + PublicData" where
  "assign cur config stageId now userId r =
     (let simulatedData =
            (case r of sender \<Rightarrow> cur\<lparr>senderId := Some userId\<rparr>
                     | receiver \<Rightarrow> cur\<lparr>receiverId := Some userId\<rparr>)
      in case startGameIfReady simulatedData config stageId now of
           Inl e \<Rightarrow> Inl e
         | Inr None \<Rightarrow> Inr simulatedData
         | Inr (Some firstRound) \<Rightarrow>
             Inr ((put_round simulatedData 1 firstRound)\<lparr>currentRound := 1\<rparr>))"

definition on_assign_role ::
  "Config \<Rightarrow> string \<Rightarrow> StageDoc list \<Rightarrow> timestamp \<Rightarrow> string \<Rightarrow> Payload \<Rightarrow> PublicData
   \<Rightarrow> error + PublicData" where
  "on_assign_role config stageId snapshot now userId payload cur =
     (if senderId cur = Some userId \<or> receiverId cur = Some userId then Inr cur
      else
        let reqRole = pl_requestedRole payload;
            assigned1 =
              (if reqRole = Some sender \<and> falsy (senderId cur) then Some sender
               else if reqRole = Some receiver \<and> falsy (receiverId cur) then Some receiver
               else None);
            assigned2 =
              (if assigned1 = None \<and> reqRole = None then
                 (let h = historicalRole stageId userId snapshot None
                  in if h = Some sender \<and> falsy (senderId cur) then Some sender
                     else if h = Some receiver \<and> falsy (receiverId cur) then Some receiver
                     else None)
               else assigned1)
        in case assigned2 of
             Some r \<Rightarrow> assign cur config stageId now userId r
           | None \<Rightarrow>
               (case reqRole of
                  None \<Rightarrow>
                    if falsy (senderId cur) then assign cur config stageId now userId sender
                    else if falsy (receiverId cur) then assign cur config stageId now userId receiver
                    else Inl (HttpsError failed_precondition ''Roles are full'')
                | Some rr \<Rightarrow>
                    Inl (HttpsError failed_precondition
                          (''Requested role '' @ role_name rr @ '' is not available.''))))"

definition on_start_game ::
  "timestamp \<Rightarrow> bool \<Rightarrow> bool \<Rightarrow> PublicData \<Rightarrow> nat \<Rightarrow> RoundData \<Rightarrow> error + PublicData" where
  "on_start_game now isSender isReceiver cur roundIndex roundData =
     (if status roundData \<noteq> WAITING_BOTH_START then Inr cur
      else
        let (r1, shouldStart) =
              (if isSender
               then (roundData\<lparr>senderReadyStart := Some True\<rparr>, truthy (receiverReadyStart roundData))
               else if isReceiver
               then (roundData\<lparr>receiverReadyStart := Some True\<rparr>, truthy (senderReadyStart roundData))
               else (roundData, False));
            r2 = (if shouldStart
                  then r1\<lparr>status := WAITING_SENDER_DECIDE, startTime := Some now,
                          senderUnlockedTime := Some now\<rparr>
                  else r1)
        in Inr (put_round cur roundIndex r2))"

definition on_sender_signal ::
  "Config \<Rightarrow> string \<Rightarrow> timestamp \<Rightarrow> bool \<Rightarrow> Payload \<Rightarrow> PublicData \<Rightarrow> nat \<Rightarrow> RoundData
   \<Rightarrow> error + PublicData" where
  "on_sender_signal config stageId now isSender payload cur roundIndex roundData =
     (if \<not> isSender then Inl (HttpsError permission_denied ''Only sender can signal'')
      else if status roundData \<noteq> WAITING_SENDER_DECIDE
      then Inl (HttpsError failed_precondition
                 (''Not sender turn. Current status: '' @ status_name (status roundData)))
      else
        case (if enableBalancedDefaults config
              then (case roundDefaults roundIndex config (pairSeed cur stageId) of
                      Inl e \<Rightarrow> Inl e
                    | Inr d \<Rightarrow> Inr (case d_senderDefault d of None \<Rightarrow> Undefined | Some c \<Rightarrow> Val c))
              else Inr Null) of
          Inl e \<Rightarrow> Inl e
        | Inr defaultSenderChoice' \<Rightarrow>
            let zeroPayoffs = (requireParticipantClick config \<and> pl_isTimedOut payload = Some True);
                r1 = roundData
                  \<lparr>senderChoice := (case pl_senderChoice payload of None \<Rightarrow> Null | Some c \<Rightarrow> Val c),
                   senderMessage :=
                     (case pl_senderMessage payload of None \<Rightarrow> None
                      | Some m \<Rightarrow> if m = [] then None else Some m),
                   senderSubmittedTime := Some now,
                   senderReactionTimeSeconds :=
                     (case senderUnlockedTime roundData of None \<Rightarrow> None
                      | Some unlocked \<Rightarrow> Some (of_int (now - unlocked) / 1000)),
                   senderActiveTimeSeconds := pl_activeTimeSeconds payload,
                   senderTimedOut := (case pl_isTimedOut payload of None \<Rightarrow> False | Some b \<Rightarrow> b),
                   defaultSenderChoice := defaultSenderChoice'\<rparr>;
                r2 = (if zeroPayoffs then r1\<lparr>senderPayoff := Some 0, receiverPayoff := Some 0\<rparr>
                      else r1)
            in Inr (put_round cur roundIndex
                      (r2\<lparr>status := WAITING_RECEIVER_DECIDE, receiverUnlockedTime := Some now\<rparr>)))"

definition on_receiver_saw_message ::
  "timestamp \<Rightarrow> bool \<Rightarrow> PublicData \<Rightarrow> nat \<Rightarrow> RoundData \<Rightarrow> error + PublicData" where
  "on_receiver_saw_message now isReceiver cur roundIndex roundData =
     (if \<not> isReceiver then Inr cur
      else if status roundData \<noteq> WAITING_RECEIVER_DECIDE then Inr cur
      else if receiverSawMessageTime roundData \<noteq> None then Inr cur
      else Inr (put_round cur roundIndex (roundData\<lparr>receiverSawMessageTime := Some now\<rparr>)))"

text \<open>The payoff logic written out in the \<open>receiver_choice\<close> handler.\<close>

definition receiver_choice_payoffs :: "Config \<Rightarrow> RoundData \<Rightarrow> choice \<Rightarrow> int \<times> int" where
  "receiver_choice_payoffs config roundData choice' =
     (if senderChoice roundData = Null then (0, 0)
      else if choice' = A then (payoffSenderChoiceA config, payoffReceiverChoiceA config)
      else if trueState roundData = 1
      then (payoffSenderChoiceB1 config, payoffReceiverChoiceB1 config)
      else (payoffSenderChoiceB2 config, payoffReceiverChoiceB2 config))"

definition on_receiver_choice ::
  "Config \<Rightarrow> string \<Rightarrow> timestamp \<Rightarrow> bool \<Rightarrow> Payload \<Rightarrow> PublicData \<Rightarrow> nat \<Rightarrow> RoundData
   \<Rightarrow> error + PublicData" where
  "on_receiver_choice config stageId now isReceiver payload cur roundIndex roundData =
     (if \<not> isReceiver then Inl (HttpsError permission_denied ''Only receiver can choose'')
      else if status roundData \<noteq> WAITING_RECEIVER_DECIDE
      then Inl (HttpsError failed_precondition ''Not receiver turn'')
      else case pl_receiverChoice payload of
        None \<Rightarrow> Inl (HttpsError invalid_argument ''Missing choice'')
      | Some choice' \<Rightarrow>
          let (senderPayoff', receiverPayoff') = receiver_choice_payoffs config roundData choice'
          in case (if enableBalancedDefaults config
                   then (case roundDefaults roundIndex config (pairSeed cur stageId) of
                           Inl e \<Rightarrow> Inl e
                         | Inr d \<Rightarrow> Inr (d_receiverDefault d))
                   else Inr None) of
               Inl e \<Rightarrow> Inl e
             | Inr defaultReceiverChoice' \<Rightarrow>
                 Inr (put_round cur roundIndex
                       (roundData
                          \<lparr>receiverChoice := Some choice',
                           receiverSubmittedTime := Some now,
                           receiverReactionTimeSeconds :=
                             (case receiverUnlockedTime roundData of None \<Rightarrow> None
                              | Some unlocked \<Rightarrow> Some (of_int (now - unlocked) / 1000)),
                           receiverActiveTimeSeconds := pl_activeTimeSeconds payload,
                           receiverTimedOut :=
                             (case pl_isTimedOut payload of None \<Rightarrow> False | Some b \<Rightarrow> b),
                           defaultReceiverChoice := defaultReceiverChoice',
                           senderPayoff := Some senderPayoff',
                           receiverPayoff := Some receiverPayoff',
                           status := SHOW_FEEDBACK\<rparr>)))"

text \<open>The object literal \<open>newRoundData\<close> of the \<open>next_round\<close> handler.\<close>

definition newRoundData :: "nat \<Rightarrow> nat \<Rightarrow> timestamp \<Rightarrow> RoundData" where
  "newRoundData nextRoundIndex nextState now =
     \<lparr>roundNumber = nextRoundIndex,
      trueState = nextState,
      status = WAITING_SENDER_DECIDE,
      senderReadyStart = None,
      receiverReadyStart = None,
      senderChoice = Null,
      senderLabel = Undefined,
      senderMessage = None,
      receiverChoice = None,
      defaultSenderChoice = Null,
      defaultSenderLabel = Undefined,
      defaultReceiverChoice = None,
      senderTimedOut = False,
      receiverTimedOut = False,
      senderPayoff = None,
      receiverPayoff = None,
      senderReadyNext = None,
      receiverReadyNext = None,
      startTime = Some now,
      senderUnlockedTime = Some now,
      senderSubmittedTime = None,
      receiverSawMessageTime = None,
      receiverUnlockedTime = None,
      receiverSubmittedTime = None,
      senderReactionTimeSeconds = None,
      receiverReactionTimeSeconds = None,
      senderActiveTimeSeconds = None,
      receiverActiveTimeSeconds = None\<rparr>"

definition on_next_round ::
  "Config \<Rightarrow> string \<Rightarrow> timestamp \<Rightarrow> string \<Rightarrow> PublicData \<Rightarrow> nat \<Rightarrow> RoundData
   \<Rightarrow> error + PublicData" where
  "on_next_round config stageId now userId cur roundIndex roundData =
     (if status roundData \<noteq> SHOW_FEEDBACK then Inr cur
      else
        let isSender = (senderId cur = Some userId);
            isReceiver = (receiverId cur = Some userId);
            (cur1, shouldAdvance) =
              (if isSender
               then (put_round cur roundIndex (roundData\<lparr>senderReadyNext := Some True\<rparr>),
                     truthy (receiverReadyNext roundData))
               else if isReceiver
               then (put_round cur roundIndex (roundData\<lparr>receiverReadyNext := Some True\<rparr>),
                     truthy (senderReadyNext roundData))
               else (cur, False))
        in if \<not> shouldAdvance then Inr cur1
           else
             let nextRoundIndex = roundIndex + 1
             in if nextRoundIndex > numRounds config
                then Inr (cur1\<lparr>currentRound := nextRoundIndex\<rparr>)
                else if roundMap cur nextRoundIndex \<noteq> None then Inr cur1
                else case roundDefaults nextRoundIndex config (pairSeed cur stageId) of
                       Inl e \<Rightarrow> Inl e
                     | Inr d \<Rightarrow>
                         Inr ((put_round cur1 nextRoundIndex
                                 (newRoundData nextRoundIndex (d_trueState d) now))
                              \<lparr>currentRound := nextRoundIndex\<rparr>))"

definition transaction ::
  "Config \<Rightarrow> string \<Rightarrow> StageDoc list \<Rightarrow> timestamp \<Rightarrow> string \<Rightarrow> action \<Rightarrow> Payload \<Rightarrow> PublicData
   \<Rightarrow> error + PublicData" where
  "transaction config stageId snapshot now userId act payload cur =
     (let roundIndex = currentRound cur
      in if act = assign_role
         then on_assign_role config stageId snapshot now userId payload cur
         else
           let isSender = (senderId cur = Some userId);
               isReceiver = (receiverId cur = Some userId)
           in if \<not> isSender \<and> \<not> isReceiver
              then Inl (HttpsError permission_denied ''User is not a player in this game'')
              else case roundMap cur roundIndex of
                None \<Rightarrow> Inl (HttpsError failed_precondition ''Round data not initialized'')
              | Some roundData \<Rightarrow>
                  (case act of
                     start_game \<Rightarrow> on_start_game now isSender isReceiver cur roundIndex roundData
                   | sender_signal \<Rightarrow>
                       on_sender_signal config stageId now isSender payload cur roundIndex roundData
                   | receiver_saw_message \<Rightarrow>
                       on_receiver_saw_message now isReceiver cur roundIndex roundData
                   | receiver_choice \<Rightarrow>
                       on_receiver_choice config stageId now isReceiver payload cur roundIndex roundData
                   | next_round \<Rightarrow>
                       on_next_round config stageId now userId cur roundIndex roundData
                   | assign_role \<Rightarrow> Inr cur))"


text \<open>The document in the store once the call is over: an error leaves it as it was.\<close>

definition stored_after :: "PublicData \<Rightarrow> error + PublicData \<Rightarrow> PublicData" where
  "stored_after cur res = (case res of Inl e \<Rightarrow> cur | Inr cur' \<Rightarrow> cur')"

text \<open>A client call, and a sequence of calls applied to the stored document.\<close>

record Call =
  c_snapshot :: "StageDoc list"
  c_now :: timestamp
  c_userId :: string
  c_action :: action
  c_payload :: Payload

definition call :: "Config \<Rightarrow> string \<Rightarrow> Call \<Rightarrow> PublicData \<Rightarrow> error + PublicData" where
  "call config stageId c cur =
     (if c_userId c = [] then Inl (HttpsError unauthenticated ''User must be logged in.'')
      else transaction config stageId (c_snapshot c) (c_now c) (c_userId c) (c_action c)
             (c_payload c) cur)"

fun run_calls :: "Config \<Rightarrow> string \<Rightarrow> Call list \<Rightarrow> PublicData \<Rightarrow> PublicData" where
  "run_calls config stageId [] cur = cur"
| "run_calls config stageId (c # cs) cur =
     run_calls config stageId cs (stored_after cur (call config stageId c cur))"

text \<open>The documents the store can hold: the initial one, and what calls make of it.\<close>

inductive reachable :: "Config \<Rightarrow> string \<Rightarrow> PublicData \<Rightarrow> bool" for config stageId where
  reachable_init: "reachable config stageId createSenderReceiverStagePublicData"
| reachable_call:
    "reachable config stageId cur \<Longrightarrow> call config stageId c cur = Inr cur'
     \<Longrightarrow> reachable config stageId cur'"

text \<open>The order of the statuses of a round.\<close>

definition status_rank :: "status \<Rightarrow> nat" where
  "status_rank s =
     (case s of WAITING_BOTH_START \<Rightarrow> 0 | WAITING_SENDER_DECIDE \<Rightarrow> 1
      | WAITING_RECEIVER_DECIDE \<Rightarrow> 2 | SHOW_FEEDBACK \<Rightarrow> 3)"

text \<open>
  A round moves forward: its status does not go back, and once it shows the feedback
  its choices and payoffs stay.
\<close>

definition round_advances :: "RoundData \<Rightarrow> RoundData \<Rightarrow> bool" where
  "round_advances r r' =
     (status_rank (status r) \<le> status_rank (status r') \<and>
      (status r = SHOW_FEEDBACK \<longrightarrow>
         senderChoice r' = senderChoice r \<and> receiverChoice r' = receiverChoice r \<and>
         senderPayoff r' = senderPayoff r \<and> receiverPayoff r' = receiverPayoff r))"

definition data_advances :: "PublicData \<Rightarrow> PublicData \<Rightarrow> bool" where
  "data_advances cur cur' =
     (\<forall>n r. roundMap cur n = Some r \<longrightarrow> (\<exists>r'. roundMap cur' n = Some r' \<and> round_advances r r'))"

text \<open>
  What holds of every document the store can hold: ids are non-empty and distinct; a round
  exists only up to the current one, only once both roles are filled, and only where the
  generator yields its defaults; round 1 exists as soon as both roles are filled; and a
  round with both \<open>readyNext\<close> flags set lies behind the current one.
\<close>

definition inv_ids :: "PublicData \<Rightarrow> bool" where
  "inv_ids cur =
     (senderId cur \<noteq> Some [] \<and> receiverId cur \<noteq> Some [] \<and>
      (\<forall>u. senderId cur = Some u \<longrightarrow> receiverId cur \<noteq> Some u))"

definition inv_rounds :: "Config \<Rightarrow> string \<Rightarrow> PublicData \<Rightarrow> bool" where
  "inv_rounds config stageId cur =
     (\<forall>n r. roundMap cur n = Some r \<longrightarrow>
        n \<le> currentRound cur \<and> senderId cur \<noteq> None \<and> receiverId cur \<noteq> None \<and>
        (\<exists>d. roundDefaults n config (pairSeed cur stageId) = Inr d))"

definition inv_first :: "PublicData \<Rightarrow> bool" where
  "inv_first cur = (senderId cur \<noteq> None \<and> receiverId cur \<noteq> None \<longrightarrow> roundMap cur 1 \<noteq> None)"

definition inv_flags :: "PublicData \<Rightarrow> bool" where
  "inv_flags cur =
     (\<forall>n r. roundMap cur n = Some r \<and> truthy (senderReadyNext r) \<and> truthy (receiverReadyNext r)
        \<longrightarrow> n < currentRound cur)"

definition doc_inv :: "Config \<Rightarrow> string \<Rightarrow> PublicData \<Rightarrow> bool" where
  "doc_inv config stageId cur =
     (inv_ids cur \<and> inv_rounds config stageId cur \<and> inv_first cur \<and> inv_flags cur)"

section \<open>A sample game\<close>

text \<open>
  Two participants \<open>u1\<close> and \<open>u2\<close> play a stage \<open>s\<close> of two rounds with the default
  payoff table: they are paired, both start, the sender signals \<open>B\<close>, the receiver
  chooses \<open>B\<close>.
\<close>

definition sample_config :: Config where
  "sample_config = createSenderReceiverStage\<lparr>numRounds := 2\<rparr>"

definition sample_call :: "string \<Rightarrow> action \<Rightarrow> Payload \<Rightarrow> Call" where
  "sample_call u a p =
     \<lparr>c_snapshot = [], c_now = 1000, c_userId = u, c_action = a, c_payload = p\<rparr>"

definition sample_paired :: PublicData where
  "sample_paired =
     run_calls sample_config ''s''
       [sample_call ''u1'' assign_role no_payload, sample_call ''u2'' assign_role no_payload]
       createSenderReceiverStagePublicData"

definition sample_deciding :: PublicData where
  "sample_deciding =
     run_calls sample_config ''s''
       [sample_call ''u1'' start_game no_payload, sample_call ''u2'' start_game no_payload]
       sample_paired"

definition sample_receiving :: PublicData where
  "sample_receiving =
     run_calls sample_config ''s''
       [sample_call ''u1'' sender_signal (no_payload\<lparr>pl_senderChoice := Some B\<rparr>)]
       sample_deciding"

definition sample_feedback :: PublicData where
  "sample_feedback =
     run_calls sample_config ''s''
       [sample_call ''u2'' receiver_choice (no_payload\<lparr>pl_receiverChoice := Some B\<rparr>)]
       sample_receiving"

text \<open>The two payoffs of every round are both unset or both set.\<close>

definition payoffs_paired :: "PublicData \<Rightarrow> bool" where
  "payoffs_paired cur =
     (\<forall>n r. roundMap cur n = Some r \<longrightarrow> (senderPayoff r = None \<longleftrightarrow> receiverPayoff r = None))"

text \<open>
  A timed-out sender submits a choice all the same; the receiver then chooses \<open>A\<close>.
\<close>

definition sample_timed_out :: PublicData where
  "sample_timed_out =
     run_calls sample_config ''s''
       [sample_call ''u1'' sender_signal
          (no_payload\<lparr>pl_senderChoice := Some A, pl_isTimedOut := Some True\<rparr>)]
       sample_deciding"

definition sample_overwritten :: PublicData where
  "sample_overwritten =
     run_calls sample_config ''s''
       [sample_call ''u2'' receiver_choice (no_payload\<lparr>pl_receiverChoice := Some A\<rparr>)]
       sample_timed_out"

text \<open>
  A timed-out sender submits no choice, as the participant view does on a timeout; the
  receiver then chooses \<open>A\<close>.
\<close>

definition sample_silent :: PublicData where
  "sample_silent =
     run_calls sample_config ''s''
       [sample_call ''u1'' sender_signal (no_payload\<lparr>pl_isTimedOut := Some True\<rparr>)]
       sample_deciding"

definition sample_silent_feedback :: PublicData where
  "sample_silent_feedback =
     run_calls sample_config ''s''
       [sample_call ''u2'' receiver_choice (no_payload\<lparr>pl_receiverChoice := Some A\<rparr>)]
       sample_silent"


section \<open>The generator's state stays below the modulus\<close>

lemma sub32_mod31: "(m - 2 ^ 32) mod 2 ^ 31 = (m::int) mod 2 ^ 31"
proof -
  have "m - 2 ^ 32 = m + 2 ^ 31 * (- 2)" by simp
  then show ?thesis by (simp only: mod_mult_self2)
qed

lemma toInt32_mod31: "toInt32 x mod 2 ^ 31 = x mod 2 ^ 31"
proof -
  have c: "(x mod 2 ^ 32) mod 2 ^ 31 = x mod 2 ^ 31"
    by (rule mod_mod_cancel) (simp add: le_imp_power_dvd)
  show ?thesis
  proof (cases "2 ^ 31 \<le> x mod 2 ^ 32")
    case True
    then have "toInt32 x = x mod 2 ^ 32 - 2 ^ 32" by (simp add: toInt32_def Let_def)
    then show ?thesis using sub32_mod31 [of "x mod 2 ^ 32"] c by (simp only:)
  next
    case False
    then have "toInt32 x = x mod 2 ^ 32" by (simp add: toInt32_def Let_def)
    then show ?thesis using c by (simp only:)
  qed
qed

lemma toInt32_and: "toInt32 x AND 0x7fffffff = x mod 2 ^ 31"
proof -
  have m: "(0x7fffffff :: int) = mask 31" by (simp add: mask_eq_exp_minus_1)
  have "toInt32 x AND mask 31 = take_bit 31 (toInt32 x)" by (rule take_bit_eq_mask [symmetric])
  also have "\<dots> = toInt32 x mod 2 ^ 31" by (rule take_bit_eq_mod)
  also have "\<dots> = x mod 2 ^ 31" by (rule toInt32_mod31)
  finally show ?thesis unfolding m .
qed

lemma next_seed_mod: "next_seed s = fl53 (fl53 (s * 1103515245) + 12345) mod 2 ^ 31"
  unfolding next_seed_def by (rule toInt32_and)

lemma bitlen_ge54: assumes "2 ^ 53 \<le> n" shows "54 \<le> bitlen n"
proof -
  have "0 < n" using assms by (smt (verit) zero_less_power)
  then have "n < 2 ^ nat (bitlen n)" using bitlen_bounds by blast
  then have "(2::int) ^ 53 < 2 ^ nat (bitlen n)" using assms by linarith
  then have "53 < nat (bitlen n)" by (simp only: power_strict_increasing_iff one_less_numeral_iff semiring_norm)
  then show ?thesis by linarith
qed

lemma fl53_small: "n < 2 ^ 53 \<Longrightarrow> fl53 n = n"
  by (simp add: fl53_def)

lemma fl53_shape:
  assumes "2 ^ 53 \<le> n"
  shows "\<exists>k. fl53 n = k * 2 ^ nat (bitlen n - 53) \<and> n div 2 ^ nat (bitlen n - 53) \<le> k"
proof -
  have "\<not> n < 2 ^ 53" using assms by linarith
  then show ?thesis unfolding fl53_def Let_def by (simp only: if_False) auto
qed

lemma fl53_even: assumes "2 ^ 53 \<le> n" shows "even (fl53 n)"
proof -
  have "0 < nat (bitlen n - 53)" using bitlen_ge54 [OF assms] by simp
  then have e: "even ((2::int) ^ nat (bitlen n - 53))" by simp
  obtain k where "fl53 n = k * 2 ^ nat (bitlen n - 53)"
    using fl53_shape [OF assms] by blast
  then show ?thesis using e by (simp add: even_mult_iff)
qed

lemma fl53_big: assumes "2 ^ 53 \<le> n" shows "2 ^ 53 \<le> fl53 n"
proof -
  define e where "e = nat (bitlen n - 53)"
  have b: "54 \<le> bitlen n" by (rule bitlen_ge54 [OF assms])
  have "0 < n" using assms by (smt (verit) zero_less_power)
  then have lo: "2 ^ nat (bitlen n - 1) \<le> n" using bitlen_bounds by blast
  have "nat (bitlen n - 1) = 52 + e" using b by (simp add: e_def)
  then have "2 ^ 52 * 2 ^ e \<le> n" using lo by (simp add: power_add)
  then have "(2 ^ 52 * 2 ^ e) div 2 ^ e \<le> n div 2 ^ e" by (rule zdiv_mono1) simp
  then have q: "2 ^ 52 \<le> n div 2 ^ e" by simp
  obtain k where k: "fl53 n = k * 2 ^ e" "n div 2 ^ e \<le> k"
    using fl53_shape [OF assms] unfolding e_def by blast
  have e1: "(2::int) \<le> 2 ^ e" using b by (simp add: e_def self_le_power)
  have "(2::int) ^ 53 = 2 ^ 52 * 2" by simp
  also have "\<dots> \<le> k * 2 ^ e" using q k(2) e1 by (intro mult_mono) simp_all
  finally show ?thesis using k(1) by simp
qed

lemma no_preimage_aux:
  assumes "0 \<le> (s::int)" "s \<le> 8162278" "(s + 22933037144445) mod 2147483648 = 289805467"
  shows False
proof -
  define d where "d = (s + 22933037144445) div 2147483648"
  have e: "s + 22933037144445 = 2147483648 * d + 289805467"
    unfolding d_def using assms(3) mult_div_mod_eq [of 2147483648 "s + 22933037144445"] by linarith
  have "d \<le> 10678 \<or> 10679 \<le> d" by linarith
  then show False
  proof
    assume "d \<le> 10678" then show False using e assms(1) by linarith
  next
    assume "10679 \<le> d" then show False using e assms(2) by linarith
  qed
qed

lemma lcg_no_small_preimage:
  fixes s :: int
  assumes "0 \<le> s" and "s * 1103515245 + 12345 < 2 ^ 53"
  shows "(s * 1103515245 + 12345) mod 2 ^ 31 \<noteq> 2147483647"
proof
  assume eq: "(s * 1103515245 + 12345) mod 2 ^ 31 = 2147483647"
  have s: "s \<le> 8162278" using assms by simp
  have "(1857678181 * ((s * 1103515245 + 12345) mod 2 ^ 31)) mod 2 ^ 31
        = (1857678181 * (s * 1103515245 + 12345)) mod 2 ^ 31"
    by (rule mod_mult_right_eq)
  then have "(1857678181 * (s * 1103515245 + 12345)) mod 2 ^ 31 = (1857678181 * 2147483647) mod 2 ^ 31"
    by (simp only: eq)
  moreover have "1857678181 * (s * 1103515245 + 12345) = (s + 22933037144445) + 2 ^ 31 * (s * 954594553)"
    by simp
  ultimately have "(s + 22933037144445) mod 2 ^ 31 = (1857678181 * 2147483647) mod 2 ^ 31"
    by (simp only: mod_mult_self2)
  then have "(s + 22933037144445) mod 2147483648 = 289805467" by simp
  then show False using no_preimage_aux assms(1) s by blast
qed

lemma next_seed_bounds:
  assumes "0 \<le> s"
  shows "0 \<le> next_seed s \<and> next_seed s < 2147483647"
proof -
  define z where "z = fl53 (s * 1103515245) + 12345"
  have ns: "next_seed s = fl53 z mod 2 ^ 31" unfolding z_def by (rule next_seed_mod)
  have r: "0 \<le> fl53 z mod 2 ^ 31" "fl53 z mod 2 ^ 31 < 2 ^ 31" by simp_all
  have "fl53 z mod 2 ^ 31 \<noteq> 2147483647"
  proof (cases "z < 2 ^ 53")
    case True
    then have small: "fl53 (s * 1103515245) < 2 ^ 53" unfolding z_def by linarith
    have "s * 1103515245 < 2 ^ 53"
    proof (rule ccontr)
      assume "\<not> s * 1103515245 < 2 ^ 53"
      then have "2 ^ 53 \<le> fl53 (s * 1103515245)" by (intro fl53_big) linarith
      then show False using small by linarith
    qed
    then have "fl53 (s * 1103515245) = s * 1103515245" by (rule fl53_small)
    then have z: "z = s * 1103515245 + 12345" unfolding z_def by simp
    have "fl53 z = z" using True by (rule fl53_small)
    then show ?thesis using lcg_no_small_preimage [OF assms] True z by simp
  next
    case False
    then have "even (fl53 z)" by (intro fl53_even) linarith
    then have "even (fl53 z mod 2 ^ 31)" by (simp add: dvd_mod_iff)
    moreover have "odd (2147483647::int)" by simp
    ultimately show ?thesis by metis
  qed
  then show ?thesis using r ns by simp
qed

lemma hashString_nonneg: "0 \<le> hashString str"
  by (simp add: hashString_def)

lemma seed_after_nonneg: "0 \<le> seed_after n str"
  by (induction n) (simp_all add: hashString_nonneg next_seed_bounds)

lemma next_index_le:
  assumes "0 \<le> seed" and "SeededRandom_next seed = (x, seed')"
  shows "0 \<le> seed' \<and> 0 \<le> x \<and> x < 1 \<and> nat \<lfloor>x * of_nat (i + 1)\<rfloor> \<le> i"
proof -
  have s: "seed' = next_seed seed" and x: "x = of_int seed' / 2147483647"
    using assms(2) by (simp_all add: SeededRandom_next_def Let_def)
  have b: "0 \<le> seed'" "seed' < 2147483647" using next_seed_bounds [OF assms(1)] s by simp_all
  have x0: "0 \<le> x" using b x by simp
  have x1: "x < 1" using b x by simp
  have "x * of_nat (i + 1) < of_nat (i + 1)" using x1 by simp
  then have "\<lfloor>x * of_nat (i + 1)\<rfloor> < int (i + 1)" by (simp add: floor_less_iff)
  then have "nat \<lfloor>x * of_nat (i + 1)\<rfloor> \<le> i" by linarith
  then show ?thesis using b x0 x1 by simp
qed

lemma js_swap_in_range:
  assumes "i < length xs" "j < length xs"
  shows "js_swap i j xs = xs[i := xs ! j, j := xs ! i]"
  using assms by (simp add: js_swap_def js_set_def js_get_def)

lemma js_swap_perm:
  assumes "i < length xs" "j < length xs"
  shows "mset (js_swap i j xs) = mset xs \<and> length (js_swap i j xs) = length xs"
  using assms by (simp add: js_swap_in_range mset_swap)

lemma shuffle_loop_perm:
  "0 \<le> seed \<Longrightarrow> k \<le> length xs - 1 \<Longrightarrow> shuffle_loop k xs seed = (ys, seed')
   \<Longrightarrow> mset ys = mset xs \<and> length ys = length xs \<and> 0 \<le> seed'"
proof (induction k arbitrary: xs seed)
  case 0
  then show ?case by simp
next
  case (Suc k)
  obtain x s1 where n: "SeededRandom_next seed = (x, s1)" by (cases "SeededRandom_next seed")
  define j where "j = nat \<lfloor>x * of_nat (Suc k + 1)\<rfloor>"
  have b: "0 \<le> s1" "j \<le> Suc k" using next_index_le [OF Suc.prems(1) n, of "Suc k"] by (simp_all add: j_def)
  have i: "Suc k < length xs" using Suc.prems(2) by linarith
  then have jl: "j < length xs" using b(2) by linarith
  have sw: "mset (js_swap (Suc k) j xs) = mset xs" "length (js_swap (Suc k) j xs) = length xs"
    using js_swap_perm [OF i jl] by simp_all
  have step: "shuffle_loop k (js_swap (Suc k) j xs) s1 = (ys, seed')"
    using Suc.prems(3) n by (simp add: j_def Let_def)
  have "k \<le> length (js_swap (Suc k) j xs) - 1" using i sw(2) by linarith
  from Suc.IH [OF b(1) this step] show ?case using sw by simp
qed

lemma shuffle_perm:
  assumes "0 \<le> seed" and "shuffle xs seed = (ys, seed')"
  shows "mset ys = mset xs \<and> length ys = length xs \<and> 0 \<le> seed'"
  using shuffle_loop_perm [OF assms(1) _ assms(2) [unfolded shuffle_def]] by simp

lemma results_loop_length:
  "length (results_loop k i idx1 idx2 sts s1 s2 r1 r2 results) = length results + k"
  by (induction k arbitrary: i idx1 idx2 results) simp_all

lemma results_loop_states:
  "map d_trueState (results_loop k i idx1 idx2 sts s1 s2 r1 r2 results) =
   map d_trueState results @ map (\<lambda>m. if js_get sts m = Some 1 then 1 else 2) [i..<i + k]"
proof (induction k arbitrary: i idx1 idx2 results)
  case 0
  then show ?case by simp
next
  case (Suc k)
  have u: "[i..<i + Suc k] = i # [i + 1..<i + 1 + k]" by (simp add: upt_conv_Cons)
  show ?case unfolding u by (simp add: Suc.IH)
qed

lemma upt_shift: "[idx..<idx + Suc c] = idx # [idx + 1..<idx + 1 + c]"
  by (simp add: upt_conv_Cons)

lemma results_loop_bucket1:
  "map (\<lambda>r. (d_senderDefault r, d_receiverDefault r))
     (filter (\<lambda>r. d_trueState r = 1) (results_loop k i idx1 idx2 sts s1 s2 r1 r2 results)) =
   map (\<lambda>r. (d_senderDefault r, d_receiverDefault r)) (filter (\<lambda>r. d_trueState r = 1) results) @
   map (\<lambda>m. (js_get s1 m, js_get r1 m))
     [idx1..<idx1 + length (filter (\<lambda>m. js_get sts m = Some 1) [i..<i + k])]"
proof (induction k arbitrary: i idx1 idx2 results)
  case 0
  then show ?case by simp
next
  case (Suc k)
  let ?c = "length (filter (\<lambda>m. js_get sts m = Some 1) [i + 1..<i + 1 + k])"
  let ?f = "\<lambda>rs. map (\<lambda>r. (d_senderDefault r, d_receiverDefault r))
                  (filter (\<lambda>r. d_trueState r = 1) rs)"
  let ?g = "\<lambda>m. (js_get s1 m, js_get r1 m)"
  show ?case
  proof (cases "js_get sts i = Some 1")
    case True
    have c: "length (filter (\<lambda>m. js_get sts m = Some 1) [i..<i + Suc k]) = Suc ?c"
      unfolding upt_shift using True by simp
    have l: "results_loop (Suc k) i idx1 idx2 sts s1 s2 r1 r2 results =
             results_loop k (i + 1) (idx1 + 1) idx2 sts s1 s2 r1 r2
               (results @ [\<lparr>d_round = i + 1, d_trueState = 1,
                            d_senderDefault = js_get s1 idx1,
                            d_receiverDefault = js_get r1 idx1\<rparr>])"
      using True by simp
    have "?f (results_loop (Suc k) i idx1 idx2 sts s1 s2 r1 r2 results) =
          ?f (results @ [\<lparr>d_round = i + 1, d_trueState = 1,
                            d_senderDefault = js_get s1 idx1,
                            d_receiverDefault = js_get r1 idx1\<rparr>]) @ map ?g [idx1 + 1..<idx1 + 1 + ?c]"
      unfolding l by (rule Suc.IH)
    also have "\<dots> = ?f results @ map ?g (idx1 # [idx1 + 1..<idx1 + 1 + ?c])" by simp
    also have "\<dots> = ?f results @ map ?g [idx1..<idx1 + Suc ?c]" by (simp only: upt_shift)
    finally show ?thesis unfolding c .
  next
    case False
    have c: "length (filter (\<lambda>m. js_get sts m = Some 1) [i..<i + Suc k]) = ?c"
      unfolding upt_shift using False by simp
    have l: "results_loop (Suc k) i idx1 idx2 sts s1 s2 r1 r2 results =
             results_loop k (i + 1) idx1 (idx2 + 1) sts s1 s2 r1 r2
               (results @ [\<lparr>d_round = i + 1, d_trueState = 2,
                            d_senderDefault = js_get s2 idx2,
                            d_receiverDefault = js_get r2 idx2\<rparr>])"
      using False by simp
    have "?f (results_loop (Suc k) i idx1 idx2 sts s1 s2 r1 r2 results) =
          ?f (results @ [\<lparr>d_round = i + 1, d_trueState = 2,
                            d_senderDefault = js_get s2 idx2,
                            d_receiverDefault = js_get r2 idx2\<rparr>]) @ map ?g [idx1..<idx1 + ?c]"
      unfolding l by (rule Suc.IH)
    also have "\<dots> = ?f results @ map ?g [idx1..<idx1 + ?c]" by simp
    finally show ?thesis unfolding c .
  qed
qed

lemma results_loop_bucket2:
  "map (\<lambda>r. (d_senderDefault r, d_receiverDefault r))
     (filter (\<lambda>r. d_trueState r = 2) (results_loop k i idx1 idx2 sts s1 s2 r1 r2 results)) =
   map (\<lambda>r. (d_senderDefault r, d_receiverDefault r)) (filter (\<lambda>r. d_trueState r = 2) results) @
   map (\<lambda>m. (js_get s2 m, js_get r2 m))
     [idx2..<idx2 + length (filter (\<lambda>m. js_get sts m \<noteq> Some 1) [i..<i + k])]"
proof (induction k arbitrary: i idx1 idx2 results)
  case 0
  then show ?case by simp
next
  case (Suc k)
  let ?c = "length (filter (\<lambda>m. js_get sts m \<noteq> Some 1) [i + 1..<i + 1 + k])"
  let ?f = "\<lambda>rs. map (\<lambda>r. (d_senderDefault r, d_receiverDefault r))
                  (filter (\<lambda>r. d_trueState r = 2) rs)"
  let ?g = "\<lambda>m. (js_get s2 m, js_get r2 m)"
  show ?case
  proof (cases "js_get sts i = Some 1")
    case True
    have c: "length (filter (\<lambda>m. js_get sts m \<noteq> Some 1) [i..<i + Suc k]) = ?c"
      unfolding upt_shift using True by simp
    have l: "results_loop (Suc k) i idx1 idx2 sts s1 s2 r1 r2 results =
             results_loop k (i + 1) (idx1 + 1) idx2 sts s1 s2 r1 r2
               (results @ [\<lparr>d_round = i + 1, d_trueState = 1,
                            d_senderDefault = js_get s1 idx1,
                            d_receiverDefault = js_get r1 idx1\<rparr>])"
      using True by simp
    have "?f (results_loop (Suc k) i idx1 idx2 sts s1 s2 r1 r2 results) =
          ?f (results @ [\<lparr>d_round = i + 1, d_trueState = 1,
                            d_senderDefault = js_get s1 idx1,
                            d_receiverDefault = js_get r1 idx1\<rparr>]) @ map ?g [idx2..<idx2 + ?c]"
      unfolding l by (rule Suc.IH)
    also have "\<dots> = ?f results @ map ?g [idx2..<idx2 + ?c]" by simp
    finally show ?thesis unfolding c .
  next
    case False
    have c: "length (filter (\<lambda>m. js_get sts m \<noteq> Some 1) [i..<i + Suc k]) = Suc ?c"
      unfolding upt_shift using False by simp
    have l: "results_loop (Suc k) i idx1 idx2 sts s1 s2 r1 r2 results =
             results_loop k (i + 1) idx1 (idx2 + 1) sts s1 s2 r1 r2
               (results @ [\<lparr>d_round = i + 1, d_trueState = 2,
                            d_senderDefault = js_get s2 idx2,
                            d_receiverDefault = js_get r2 idx2\<rparr>])"
      using False by simp
    have "?f (results_loop (Suc k) i idx1 idx2 sts s1 s2 r1 r2 results) =
          ?f (results @ [\<lparr>d_round = i + 1, d_trueState = 2,
                            d_senderDefault = js_get s2 idx2,
                            d_receiverDefault = js_get r2 idx2\<rparr>]) @ map ?g [idx2 + 1..<idx2 + 1 + ?c]"
      unfolding l by (rule Suc.IH)
    also have "\<dots> = ?f results @ map ?g (idx2 # [idx2 + 1..<idx2 + 1 + ?c])" by simp
    also have "\<dots> = ?f results @ map ?g [idx2..<idx2 + Suc ?c]" by (simp only: upt_shift)
    finally show ?thesis unfolding c .
  qed
qed

section \<open>The product of the number of rounds and the probability\<close>

lemma binade_bounds:
  assumes "0 < x"
  shows "power_int 2 (binade x) \<le> x" and "x < power_int 2 (binade x + 1)"
proof -
  have "power_int 2 (binade x) \<le> x \<and> x < power_int 2 (binade x + 1)"
  proof (cases "1 \<le> x")
    case True
    let ?f = "\<lfloor>x\<rfloor>"
    have f: "1 \<le> ?f" using True by (simp add: le_floor_iff)
    then have b: "2 ^ nat (bitlen ?f - 1) \<le> ?f" "?f < 2 ^ nat (bitlen ?f)"
      using bitlen_bounds [of ?f] by simp_all
    have b1: "1 \<le> bitlen ?f" using f bitlen_eq_zero_iff [of ?f] bitlen_nonneg [of ?f] by linarith
    have e: "binade x = bitlen ?f - 1" using True by (simp add: binade_def)
    have "(2 :: rat) ^ nat (bitlen ?f - 1) \<le> of_int ?f"
      using b(1) by (simp only: numeral_power_le_of_int_cancel_iff)
    moreover have "of_int ?f \<le> x" by (rule of_int_floor_le)
    ultimately have lo: "(2 :: rat) ^ nat (bitlen ?f - 1) \<le> x" by (rule order_trans)
    have "?f + 1 \<le> 2 ^ nat (bitlen ?f)" using b(2) by simp
    then have "(of_int (?f + 1) :: rat) \<le> 2 ^ nat (bitlen ?f)"
      by (simp only: of_int_le_numeral_power_cancel_iff)
    moreover have "x < of_int (?f + 1)" by linarith
    ultimately have hi: "x < (2 :: rat) ^ nat (bitlen ?f)" by (rule less_le_trans [rotated])
    show ?thesis using lo hi b1 unfolding e by (simp add: power_int_def)
  next
    case False
    let ?y = "1 / x"
    let ?c = "\<lceil>?y\<rceil>"
    have y: "1 < ?y" using False assms by simp
    have c: "1 \<le> ?c - 1" using y by (simp add: less_ceiling_iff)
    let ?k = "bitlen (?c - 1)"
    have b: "2 ^ nat (?k - 1) \<le> ?c - 1" "?c - 1 < 2 ^ nat ?k"
      using bitlen_bounds [of "?c - 1"] c by simp_all
    have k1: "1 \<le> ?k" using c bitlen_eq_zero_iff [of "?c - 1"] bitlen_nonneg [of "?c - 1"] by linarith
    have e: "binade x = - ?k" using False by (simp add: binade_def)
    have "?c \<le> 2 ^ nat ?k" using b(2) by simp
    then have "(of_int ?c :: rat) \<le> 2 ^ nat ?k"
      by (simp only: of_int_le_numeral_power_cancel_iff)
    moreover have "?y \<le> of_int ?c" by (rule le_of_int_ceiling)
    ultimately have yk: "?y \<le> 2 ^ nat ?k" by (rule order_trans [rotated])
    have "(2 :: rat) ^ nat (?k - 1) \<le> of_int (?c - 1)"
      using b(1) by (simp only: numeral_power_le_of_int_cancel_iff)
    moreover have "of_int (?c - 1) < ?y" by linarith
    ultimately have ky: "(2 :: rat) ^ nat (?k - 1) < ?y" by (rule le_less_trans)
    have lo: "1 / 2 ^ nat ?k \<le> x"
    proof -
      have "1 \<le> x * 2 ^ nat ?k" using yk assms by (simp add: field_simps)
      then show ?thesis by (simp add: field_simps)
    qed
    have hi: "x < 1 / 2 ^ nat (?k - 1)"
    proof -
      have "x * 2 ^ nat (?k - 1) < 1" using ky assms by (simp add: field_simps)
      then show ?thesis by (simp add: field_simps)
    qed
    have p1: "power_int (2 :: rat) (- ?k) = 1 / 2 ^ nat ?k"
      using k1 by (simp add: power_int_def inverse_eq_divide power_one_over)
    have p2: "power_int (2 :: rat) (- ?k + 1) = 1 / 2 ^ nat (?k - 1)"
    proof (cases "?k = 1")
      case True
      then show ?thesis by simp
    next
      case False
      then have "- ?k + 1 < 0" using k1 by simp
      moreover have "nat (- (- ?k + 1)) = nat (?k - 1)" by simp
      ultimately show ?thesis by (simp add: power_int_def inverse_eq_divide power_one_over)
    qed
    show ?thesis using lo hi unfolding e p1 p2 by simp
  qed
  then show "power_int 2 (binade x) \<le> x" and "x < power_int 2 (binade x + 1)" by simp_all
qed

lemma round_even_le:
  assumes "y \<le> of_int N"
  shows "round_even y \<le> N"
proof -
  have f: "\<lfloor>y\<rfloor> \<le> N" using assms by (simp add: floor_le_iff) 
  show ?thesis
  proof (cases "\<lfloor>y\<rfloor> = N")
    case True
    then have "of_int N \<le> y" by (metis of_int_floor_le)
    then have "y = of_int N" using assms by simp
    then show ?thesis by (simp add: round_even_def)
  next
    case False
    then have "\<lfloor>y\<rfloor> + 1 \<le> N" using f by simp
    then show ?thesis by (simp add: round_even_def Let_def)
  qed
qed

lemma round_even_ge:
  assumes "of_int N \<le> y"
  shows "N \<le> round_even y"
proof -
  have "N \<le> \<lfloor>y\<rfloor>" using assms by (simp add: le_floor_iff)
  then show ?thesis by (simp add: round_even_def Let_def)
qed


lemma to_double_pos:
  assumes "0 < x"
  shows "to_double x =
           of_int (round_even (x / power_int 2 (binade x - 52))) * power_int 2 (binade x - 52)"
  using assms by (simp add: to_double_def Let_def)

lemma ulp_scale: "power_int (2 :: rat) (e - 52) * 2 ^ 52 = power_int 2 e"
proof -
  have "power_int (2 :: rat) ((e - 52) + 52) = power_int 2 (e - 52) * power_int 2 52"
    by (rule power_int_add) simp
  moreover have "(e - 52) + 52 = e" by simp
  moreover have "power_int (2 :: rat) 52 = 2 ^ 52" by (rule power_int_numeral)
  ultimately show ?thesis by (simp only:)
qed

lemma ulp_scale_Suc: "power_int (2 :: rat) (e - 52) * 2 ^ 53 = power_int 2 (e + 1)"
proof -
  have "power_int (2 :: rat) ((e - 52) + 53) = power_int 2 (e - 52) * power_int 2 53"
    by (rule power_int_add) simp
  moreover have "(e - 52) + 53 = e + 1" by simp
  moreover have "power_int (2 :: rat) 53 = 2 ^ 53" by (rule power_int_numeral)
  ultimately show ?thesis by (simp only:)
qed

lemma round_even_mono:
  assumes "x \<le> y"
  shows "round_even x \<le> round_even y"
proof (cases "\<lfloor>x\<rfloor> = \<lfloor>y\<rfloor>")
  case True
  define f where "f = \<lfloor>y\<rfloor>"
  define rx where "rx = x - of_int f"
  define ry where "ry = y - of_int f"
  have r: "rx \<le> ry" using assms by (simp add: rx_def ry_def)
  have ex: "round_even x = (if rx < 1 / 2 \<or> (rx = 1 / 2 \<and> even f) then f else f + 1)"
    unfolding round_even_def Let_def True rx_def f_def ..
  have ey: "round_even y = (if ry < 1 / 2 \<or> (ry = 1 / 2 \<and> even f) then f else f + 1)"
    unfolding round_even_def Let_def ry_def f_def ..
  show ?thesis unfolding ex ey using r by (auto split: if_splits)
next
  case False
  have "\<lfloor>x\<rfloor> \<le> \<lfloor>y\<rfloor>" using assms by (rule floor_mono)
  then have "\<lfloor>x\<rfloor> + 1 \<le> \<lfloor>y\<rfloor>" using False by simp
  moreover have "round_even x \<le> \<lfloor>x\<rfloor> + 1" by (simp add: round_even_def Let_def)
  moreover have "\<lfloor>y\<rfloor> \<le> round_even y" by (simp add: round_even_def Let_def)
  ultimately show ?thesis by linarith
qed

lemma mant_bounds:
  assumes "0 < x"
  defines "u \<equiv> power_int (2 :: rat) (binade x - 52)"
  shows "2 ^ 52 \<le> round_even (x / u)" and "round_even (x / u) \<le> 2 ^ 53"
proof -
  have u: "0 < u" by (simp add: u_def)
  have "u * 2 ^ 52 \<le> x" using binade_bounds(1) [OF assms(1)] unfolding u_def ulp_scale .
  then have "of_int (2 ^ 52) \<le> x / u" using u by (simp add: field_simps)
  then show "2 ^ 52 \<le> round_even (x / u)" by (rule round_even_ge)
  have "x < u * 2 ^ 53" using binade_bounds(2) [OF assms(1)] unfolding u_def ulp_scale_Suc .
  then have "x / u \<le> of_int (2 ^ 53)" using u by (simp add: field_simps)
  then show "round_even (x / u) \<le> 2 ^ 53" by (rule round_even_le)
qed

lemma to_double_bracket:
  assumes "0 < x"
  shows "power_int 2 (binade x) \<le> to_double x" and "to_double x \<le> power_int 2 (binade x + 1)"
proof -
  let ?u = "power_int (2 :: rat) (binade x - 52)"
  let ?m = "round_even (x / ?u)"
  have u: "0 < ?u" by simp
  have "(2 ^ 52 :: rat) \<le> of_int ?m"
    using mant_bounds(1) [OF assms] by (simp only: numeral_power_le_of_int_cancel_iff)
  then have "2 ^ 52 * ?u \<le> of_int ?m * ?u" using u by (simp only: mult_le_cancel_right_pos)
  then have "?u * 2 ^ 52 \<le> of_int ?m * ?u" by (simp only: mult.commute)
  then show "power_int 2 (binade x) \<le> to_double x"
    unfolding to_double_pos [OF assms] ulp_scale .
  have "(of_int ?m :: rat) \<le> 2 ^ 53"
    using mant_bounds(2) [OF assms] by (simp only: of_int_le_numeral_power_cancel_iff)
  then have "of_int ?m * ?u \<le> 2 ^ 53 * ?u" using u by (simp only: mult_le_cancel_right_pos)
  then have "of_int ?m * ?u \<le> ?u * 2 ^ 53" by (simp only: mult.commute)
  then show "to_double x \<le> power_int 2 (binade x + 1)"
    unfolding to_double_pos [OF assms] ulp_scale_Suc .
qed

lemma binade_mono:
  assumes "0 < x" "x \<le> y"
  shows "binade x \<le> binade y"
proof (rule ccontr)
  assume "\<not> binade x \<le> binade y"
  then have "binade y + 1 \<le> binade x" by simp
  then have "power_int (2 :: rat) (binade y + 1) \<le> power_int 2 (binade x)"
    by (rule power_int_increasing) simp
  also have "\<dots> \<le> x" using binade_bounds(1) [OF assms(1)] .
  also have "\<dots> \<le> y" by fact
  also have "\<dots> < power_int 2 (binade y + 1)" using binade_bounds(2) [of y] assms by simp
  finally show False by simp
qed

lemma to_double_mono:
  assumes "0 < x" "x \<le> y"
  shows "to_double x \<le> to_double y"
proof (cases "binade x = binade y")
  case True
  have y: "0 < y" using assms by simp
  let ?u = "power_int (2 :: rat) (binade y - 52)"
  have u: "0 < ?u" by simp
  have "x / ?u \<le> y / ?u" using assms(2) u by (simp add: divide_right_mono)
  then have b: "round_even (x / ?u) \<le> round_even (y / ?u)" by (rule round_even_mono)
  then have "(of_int (round_even (x / ?u)) :: rat) \<le> of_int (round_even (y / ?u))"
    by (simp only: of_int_le_iff)
  then have "of_int (round_even (x / ?u)) * ?u \<le> of_int (round_even (y / ?u)) * ?u"
    using u by (simp only: mult_le_cancel_right_pos)
  then show ?thesis unfolding to_double_pos [OF assms(1)] to_double_pos [OF y] True .
next
  case False
  have y: "0 < y" using assms by simp
  have "binade x + 1 \<le> binade y" using False binade_mono [OF assms] by simp
  then have "power_int (2 :: rat) (binade x + 1) \<le> power_int 2 (binade y)"
    by (rule power_int_increasing) simp
  then show ?thesis using to_double_bracket(2) [OF assms(1)] to_double_bracket(1) [OF y] by linarith
qed

lemma to_double_nonneg:
  assumes "0 \<le> x"
  shows "0 \<le> to_double x"
proof (cases "x = 0")
  case True
  then show ?thesis by (simp add: to_double_def)
next
  case False
  then have x: "0 < x" using assms by simp
  have "0 \<le> power_int (2 :: rat) (binade x)" by simp
  then show ?thesis using to_double_bracket(1) [OF x] by linarith
qed

lemma to_double_le:
  assumes "0 \<le> x" "x \<le> y" "is_double y"
  shows "to_double x \<le> y"
proof (cases "x = 0")
  case True
  then show ?thesis using assms by (simp add: to_double_def)
next
  case False
  then have "0 < x" using assms by simp
  then have "to_double x \<le> to_double y" using assms(2) by (rule to_double_mono)
  then show ?thesis using assms(3) by (simp add: is_double_def)
qed

lemma js_times_bounds:
  assumes "0 \<le> p" "p \<le> 1"
  shows "0 \<le> js_times (of_nat n) p" and "js_times (of_nat n) p \<le> of_nat n"
proof -
  have a: "0 \<le> of_nat n * p" using assms(1) by simp
  have "of_nat n * p \<le> of_nat n * 1" using assms(2) by (intro mult_left_mono) simp_all
  then have b: "of_nat n * p \<le> of_nat n" by simp
  show "0 \<le> js_times (of_nat n) p" using a to_double_nonneg [OF a] by (simp add: js_times_def)
  show "js_times (of_nat n) p \<le> of_nat n"
    using b to_double_le [OF a b] by (simp add: js_times_def)
qed

lemma numState1_bounds:
  assumes "0 \<le> p" "p \<le> 1"
  shows "0 \<le> Math_round (js_times (of_nat n) p) \<and> Math_round (js_times (of_nat n) p) \<le> int n"
proof -
  let ?x = "js_times (of_nat n) p"
  have a: "0 \<le> ?x" and b: "?x \<le> of_nat n" using js_times_bounds [OF assms, of n] by simp_all
  have b': "?x + 1 / 2 < of_int (int n + 1)" using b by simp
  have "0 \<le> \<lfloor>?x + 1 / 2\<rfloor>" using a by (simp add: le_floor_iff)
  moreover have "\<lfloor>?x + 1 / 2\<rfloor> < int n + 1" using b' by (simp only: floor_less_iff)
  ultimately show ?thesis by (simp add: Math_round_def)
qed


lemma js_get_upt: "map (js_get xs) [0..<length xs] = xs"
proof -
  have "map (js_get xs) [0..<length xs] = map ((!) xs) [0..<length xs]"
    by (rule map_cong) (simp_all add: js_get_def)
  then show ?thesis by (simp add: map_nth)
qed

lemma count_fill2:
  "x \<noteq> y \<Longrightarrow> length (filter (\<lambda>v. v = Some x) (fill2 a x b y)) = a"
  "x \<noteq> y \<Longrightarrow> length (filter (\<lambda>v. v = Some y) (fill2 a x b y)) = b"
  by (simp_all add: fill2_def)

lemma mset_filter_length:
  "mset xs = mset ys \<Longrightarrow> length (filter P xs) = length (filter P ys)"
  by (metis mset_filter size_mset)

lemma generate_structure:
  fixes n :: nat and p :: rat
  assumes "0 \<le> p" "p \<le> 1"
  defines "n1 \<equiv> nat (Math_round (js_times (of_nat n) p))"
  shows "\<exists>sts s1 s2 r1 r2.
           generateBalancedDefaults n p seed = Inr (results_loop n 0 0 0 sts s1 s2 r1 r2 []) \<and>
           mset sts = mset (fill2 n1 (1::nat) (n - n1) 2) \<and> length sts = n \<and>
           mset s1 = mset (fill2 (n1 div 2) A (n1 - n1 div 2) B) \<and> length s1 = n1 \<and>
           mset r1 = mset (fill2 (n1 div 2) A (n1 - n1 div 2) B) \<and> length r1 = n1 \<and>
           mset s2 = mset (fill2 ((n - n1) div 2) A ((n - n1) - (n - n1) div 2) B) \<and> length s2 = n - n1 \<and>
           mset r2 = mset (fill2 ((n - n1) div 2) A ((n - n1) - (n - n1) div 2) B) \<and> length r2 = n - n1"
proof -
  have mb: "0 \<le> Math_round (js_times (of_nat n) p)" "Math_round (js_times (of_nat n) p) \<le> int n"
    using numState1_bounds [OF assms(1,2)] by simp_all
  have n2: "nat (int n - Math_round (js_times (of_nat n) p)) = n - n1" using mb by (simp add: n1_def)
  have le: "n1 \<le> n" using mb by (simp add: n1_def)
  obtain sts g0 where a0: "shuffle (fill2 n1 (1::nat) (n - n1) 2) (hashString seed) = (sts, g0)"
    by (cases "shuffle (fill2 n1 (1::nat) (n - n1) 2) (hashString seed)")
  obtain s1 g1 where a1: "shuffle (fill2 (n1 div 2) A (n1 - n1 div 2) B) g0 = (s1, g1)"
    by (cases "shuffle (fill2 (n1 div 2) A (n1 - n1 div 2) B) g0")
  obtain s2 g2 where a2: "shuffle (fill2 ((n - n1) div 2) A ((n - n1) - (n - n1) div 2) B) g1 = (s2, g2)"
    by (cases "shuffle (fill2 ((n - n1) div 2) A ((n - n1) - (n - n1) div 2) B) g1")
  obtain r1 g3 where a3: "shuffle (fill2 (n1 div 2) A (n1 - n1 div 2) B) g2 = (r1, g3)"
    by (cases "shuffle (fill2 (n1 div 2) A (n1 - n1 div 2) B) g2")
  obtain r2 g4 where a4: "shuffle (fill2 ((n - n1) div 2) A ((n - n1) - (n - n1) div 2) B) g3 = (r2, g4)"
    by (cases "shuffle (fill2 ((n - n1) div 2) A ((n - n1) - (n - n1) div 2) B) g3")
  have p0: "mset sts = mset (fill2 n1 (1::nat) (n - n1) 2)" "length sts = length (fill2 n1 (1::nat) (n - n1) 2)" "0 \<le> g0"
    using shuffle_perm [OF hashString_nonneg a0] by simp_all
  have p1: "mset s1 = mset (fill2 (n1 div 2) A (n1 - n1 div 2) B)"
    "length s1 = length (fill2 (n1 div 2) A (n1 - n1 div 2) B)" "0 \<le> g1"
    using shuffle_perm [OF p0(3) a1] by simp_all
  have p2: "mset s2 = mset (fill2 ((n - n1) div 2) A ((n - n1) - (n - n1) div 2) B)"
    "length s2 = length (fill2 ((n - n1) div 2) A ((n - n1) - (n - n1) div 2) B)" "0 \<le> g2"
    using shuffle_perm [OF p1(3) a2] by simp_all
  have p3: "mset r1 = mset (fill2 (n1 div 2) A (n1 - n1 div 2) B)"
    "length r1 = length (fill2 (n1 div 2) A (n1 - n1 div 2) B)" "0 \<le> g3"
    using shuffle_perm [OF p2(3) a3] by simp_all
  have p4: "mset r2 = mset (fill2 ((n - n1) div 2) A ((n - n1) - (n - n1) div 2) B)"
    "length r2 = length (fill2 ((n - n1) div 2) A ((n - n1) - (n - n1) div 2) B)" "0 \<le> g4"
    using shuffle_perm [OF p3(3) a4] by simp_all
  have cond: "\<not> (Math_round (js_times (of_nat n) p) < 0 \<or> int n - Math_round (js_times (of_nat n) p) < 0)"
    using mb by linarith
  have g: "generateBalancedDefaults n p seed = Inr (results_loop n 0 0 0 sts s1 s2 r1 r2 [])"
    unfolding generateBalancedDefaults_def Let_def
    by (simp only: cond if_False n2 n1_def [symmetric] a0 a1 a2 a3 a4 prod.case)
  have len: "length (fill2 a x b y) = a + b" for a b and x y :: 'a by (simp add: fill2_def)
  have l0: "length sts = n" using p0(2) le by (simp add: len)
  have half: "k div 2 + (k - k div 2) = k" for k :: nat by arith
  have l1: "length s1 = n1" using p1(2) by (simp only: len half)
  have l2: "length s2 = n - n1" using p2(2) by (simp only: len half)
  have l3: "length r1 = n1" using p3(2) by (simp only: len half)
  have l4: "length r2 = n - n1" using p4(2) by (simp only: len half)
  show ?thesis using g p0(1) l0 p1(1) l1 p3(1) l3 p2(1) l2 p4(1) l4 by blast
qed

lemma count_via_js_get:
  assumes "length xs = n"
  shows "length (filter (\<lambda>m. P (js_get xs m)) [0..<n]) = length (filter P xs)"
proof -
  have "filter P xs = filter P (map (js_get xs) [0..<n])" using assms js_get_upt [of xs] by simp
  then show ?thesis by (simp add: filter_map o_def)
qed

lemma bucket_count_sender:
  "bucket_count d_senderDefault st c rs =
   length (filter (\<lambda>q. fst q = Some c)
     (map (\<lambda>r. (d_senderDefault r, d_receiverDefault r)) (filter (\<lambda>r. d_trueState r = st) rs)))"
  by (simp add: bucket_count_def filter_map o_def conj_commute)

lemma bucket_count_receiver:
  "bucket_count d_receiverDefault st c rs =
   length (filter (\<lambda>q. snd q = Some c)
     (map (\<lambda>r. (d_senderDefault r, d_receiverDefault r)) (filter (\<lambda>r. d_trueState r = st) rs)))"
  by (simp add: bucket_count_def filter_map o_def conj_commute)

lemma pairs_count_fst:
  assumes "length s = k" and "mset s = mset (fill2 a A b B)"
  shows "length (filter (\<lambda>q. fst q = Some A) (map (\<lambda>m. (js_get s m, js_get r m)) [0..<k])) = a"
    and "length (filter (\<lambda>q. fst q = Some B) (map (\<lambda>m. (js_get s m, js_get r m)) [0..<k])) = b"
proof -
  have "length (filter (\<lambda>q. fst q = Some c) (map (\<lambda>m. (js_get s m, js_get r m)) [0..<k]))
        = length (filter (\<lambda>v. v = Some c) (fill2 a A b B))" for c
  proof -
    have "length (filter (\<lambda>q. fst q = Some c) (map (\<lambda>m. (js_get s m, js_get r m)) [0..<k]))
          = length (filter (\<lambda>m. js_get s m = Some c) [0..<k])"
      by (simp add: filter_map o_def)
    also have "\<dots> = length (filter (\<lambda>v. v = Some c) s)" by (rule count_via_js_get [OF assms(1)])
    also have "\<dots> = length (filter (\<lambda>v. v = Some c) (fill2 a A b B))"
      by (rule mset_filter_length [OF assms(2)])
    finally show ?thesis .
  qed
  then show "length (filter (\<lambda>q. fst q = Some A) (map (\<lambda>m. (js_get s m, js_get r m)) [0..<k])) = a"
    and "length (filter (\<lambda>q. fst q = Some B) (map (\<lambda>m. (js_get s m, js_get r m)) [0..<k])) = b"
    by (simp_all add: count_fill2)
qed

lemma pairs_count_snd:
  assumes "length r = k" and "mset r = mset (fill2 a A b B)"
  shows "length (filter (\<lambda>q. snd q = Some A) (map (\<lambda>m. (js_get s m, js_get r m)) [0..<k])) = a"
    and "length (filter (\<lambda>q. snd q = Some B) (map (\<lambda>m. (js_get s m, js_get r m)) [0..<k])) = b"
proof -
  have "length (filter (\<lambda>q. snd q = Some c) (map (\<lambda>m. (js_get s m, js_get r m)) [0..<k]))
        = length (filter (\<lambda>v. v = Some c) (fill2 a A b B))" for c
  proof -
    have "length (filter (\<lambda>q. snd q = Some c) (map (\<lambda>m. (js_get s m, js_get r m)) [0..<k]))
          = length (filter (\<lambda>m. js_get r m = Some c) [0..<k])"
      by (simp add: filter_map o_def)
    also have "\<dots> = length (filter (\<lambda>v. v = Some c) r)" by (rule count_via_js_get [OF assms(1)])
    also have "\<dots> = length (filter (\<lambda>v. v = Some c) (fill2 a A b B))"
      by (rule mset_filter_length [OF assms(2)])
    finally show ?thesis .
  qed
  then show "length (filter (\<lambda>q. snd q = Some A) (map (\<lambda>m. (js_get s m, js_get r m)) [0..<k])) = a"
    and "length (filter (\<lambda>q. snd q = Some B) (map (\<lambda>m. (js_get s m, js_get r m)) [0..<k])) = b"
    by (simp_all add: count_fill2)
qed

lemma state_counts:
  assumes "length sts = n" and "mset sts = mset (fill2 n1 (1::nat) (n - n1) 2)" and "n1 \<le> n"
  shows "length (filter (\<lambda>m. js_get sts m = Some 1) [0..<n]) = n1"
    and "length (filter (\<lambda>m. js_get sts m \<noteq> Some 1) [0..<n]) = n - n1"
proof -
  have "length (filter (\<lambda>m. js_get sts m = Some 1) [0..<n]) = length (filter (\<lambda>v. v = Some 1) sts)"
    by (rule count_via_js_get [OF assms(1)])
  also have "\<dots> = length (filter (\<lambda>v. v = Some 1) (fill2 n1 (1::nat) (n - n1) 2))"
    by (rule mset_filter_length [OF assms(2)])
  also have "\<dots> = n1" by (rule count_fill2) simp
  finally show a: "length (filter (\<lambda>m. js_get sts m = Some 1) [0..<n]) = n1" .
  have "length (filter (\<lambda>m. js_get sts m = Some 1) [0..<n]) +
        length (filter (\<lambda>m. \<not> js_get sts m = Some 1) [0..<n]) = length [0..<n]"
    by (rule sum_length_filter_compl)
  then show "length (filter (\<lambda>m. js_get sts m \<noteq> Some 1) [0..<n]) = n - n1" using a by simp
qed

lemma generate_core:
  fixes n :: nat and p :: rat
  assumes "0 \<le> p" "p \<le> 1"
  defines "n1 \<equiv> nat (Math_round (js_times (of_nat n) p))"
  shows "\<exists>rs s1 s2 r1 r2.
           generateBalancedDefaults n p seed = Inr rs \<and> length rs = n \<and> n1 \<le> n \<and>
           length (filter (\<lambda>r. d_trueState r = 1) rs) = n1 \<and>
           length (filter (\<lambda>r. d_trueState r = 2) rs) = n - n1 \<and>
           map (\<lambda>r. (d_senderDefault r, d_receiverDefault r)) (filter (\<lambda>r. d_trueState r = 1) rs)
             = map (\<lambda>m. (js_get s1 m, js_get r1 m)) [0..<n1] \<and>
           map (\<lambda>r. (d_senderDefault r, d_receiverDefault r)) (filter (\<lambda>r. d_trueState r = 2) rs)
             = map (\<lambda>m. (js_get s2 m, js_get r2 m)) [0..<n - n1] \<and>
           mset s1 = mset (fill2 (n1 div 2) A (n1 - n1 div 2) B) \<and> length s1 = n1 \<and>
           mset r1 = mset (fill2 (n1 div 2) A (n1 - n1 div 2) B) \<and> length r1 = n1 \<and>
           mset s2 = mset (fill2 ((n - n1) div 2) A ((n - n1) - (n - n1) div 2) B) \<and> length s2 = n - n1 \<and>
           mset r2 = mset (fill2 ((n - n1) div 2) A ((n - n1) - (n - n1) div 2) B) \<and> length r2 = n - n1 \<and>
           (\<forall>r \<in> set rs. d_trueState r = 1 \<or> d_trueState r = 2)"
proof -
  obtain sts s1 s2 r1 r2 where
    g: "generateBalancedDefaults n p seed = Inr (results_loop n 0 0 0 sts s1 s2 r1 r2 [])" and
    sts: "mset sts = mset (fill2 n1 (1::nat) (n - n1) 2)" "length sts = n" and
    rest: "mset s1 = mset (fill2 (n1 div 2) A (n1 - n1 div 2) B)" "length s1 = n1"
      "mset r1 = mset (fill2 (n1 div 2) A (n1 - n1 div 2) B)" "length r1 = n1"
      "mset s2 = mset (fill2 ((n - n1) div 2) A ((n - n1) - (n - n1) div 2) B)" "length s2 = n - n1"
      "mset r2 = mset (fill2 ((n - n1) div 2) A ((n - n1) - (n - n1) div 2) B)" "length r2 = n - n1"
    using generate_structure [OF assms(1,2), of n seed] unfolding n1_def by blast
  let ?rs = "results_loop n 0 0 0 sts s1 s2 r1 r2 []"
  have le: "n1 \<le> n" using numState1_bounds [OF assms(1,2), of n] unfolding n1_def by linarith
  have c: "length (filter (\<lambda>m. js_get sts m = Some 1) [0..<n]) = n1"
    "length (filter (\<lambda>m. js_get sts m \<noteq> Some 1) [0..<n]) = n - n1"
    using state_counts [OF sts(2) sts(1) le] by simp_all
  have len: "length ?rs = n" by (simp add: results_loop_length)
  have b1: "map (\<lambda>r. (d_senderDefault r, d_receiverDefault r)) (filter (\<lambda>r. d_trueState r = 1) ?rs)
             = map (\<lambda>m. (js_get s1 m, js_get r1 m)) [0..<n1]"
    using results_loop_bucket1 [of n 0 0 0 sts s1 s2 r1 r2 "[]"] c(1) by simp
  have b2: "map (\<lambda>r. (d_senderDefault r, d_receiverDefault r)) (filter (\<lambda>r. d_trueState r = 2) ?rs)
             = map (\<lambda>m. (js_get s2 m, js_get r2 m)) [0..<n - n1]"
    using results_loop_bucket2 [of n 0 0 0 sts s1 s2 r1 r2 "[]"] c(2) by simp
  have k1: "length (filter (\<lambda>r. d_trueState r = 1) ?rs) = n1"
    using arg_cong [OF b1, of length] by simp
  have k2: "length (filter (\<lambda>r. d_trueState r = 2) ?rs) = n - n1"
    using arg_cong [OF b2, of length] by simp
  have "set (map d_trueState ?rs) \<subseteq> {1, 2}"
    unfolding results_loop_states [of n 0 0 0 sts s1 s2 r1 r2 "[]"] by auto
  then have st: "\<forall>r \<in> set ?rs. d_trueState r = 1 \<or> d_trueState r = 2" by auto
  show ?thesis using g len le k1 k2 b1 b2 rest st by blast
qed


section \<open>Claims about the balanced default generator\<close>




lemma three_tenths_exact: "Math_round (of_nat 5 * three_tenths) = 1"
  unfolding three_tenths_def by code_simp




lemma fill2_some: "v \<in> set (fill2 a x b y) \<Longrightarrow> v \<noteq> None"
  by (auto simp: fill2_def)

lemma bucket_defaults_some:
  assumes m: "map (\<lambda>r. (d_senderDefault r, d_receiverDefault r)) (filter (\<lambda>r. d_trueState r = st) rs)
                = map (\<lambda>m. (js_get s m, js_get r m)) [0..<k]"
    and s: "length s = k" "mset s = mset (fill2 a A b B)"
    and r: "length r = k" "mset r = mset (fill2 a' A b' B)"
    and x: "x \<in> set rs" "d_trueState x = st"
  shows "d_senderDefault x \<noteq> None \<and> d_receiverDefault x \<noteq> None"
proof -
  have "(d_senderDefault x, d_receiverDefault x)
          \<in> set (map (\<lambda>r. (d_senderDefault r, d_receiverDefault r)) (filter (\<lambda>r. d_trueState r = st) rs))"
    using x by auto
  then have "(d_senderDefault x, d_receiverDefault x) \<in> set (map (\<lambda>m. (js_get s m, js_get r m)) [0..<k])"
    unfolding m .
  then obtain i where i: "i < k" "d_senderDefault x = js_get s i" "d_receiverDefault x = js_get r i"
    by auto
  have "js_get s i \<in> set s" using i(1) s(1) by (simp add: js_get_def)
  then have "js_get s i \<in> set (fill2 a A b B)" using mset_eq_setD [OF s(2)] by simp
  then have 1: "js_get s i \<noteq> None" by (rule fill2_some)
  have "js_get r i \<in> set r" using i(1) r(1) by (simp add: js_get_def)
  then have "js_get r i \<in> set (fill2 a' A b' B)" using mset_eq_setD [OF r(2)] by simp
  then have 2: "js_get r i \<noteq> None" by (rule fill2_some)
  show ?thesis using 1 2 i by simp
qed

text \<open>
  Claim C7. For every number of rounds, probability and seed, within the rounds whose
  hidden state is 1 the sender defaults split between \<open>A\<close> and \<open>B\<close> with a count
  difference of at most 1; the same holds for the receiver defaults, and for both kinds
  of defaults within the rounds whose hidden state is 2. Every one of the \<open>numRounds\<close>
  rounds has hidden state 1 or 2 and a default for each role; of the \<open>k\<close> rounds of one
  hidden state, \<open>floor(k / 2)\<close> have default \<open>A\<close> and the other \<open>k - floor(k / 2)\<close>
  have default \<open>B\<close>, for the sender and for the receiver.
\<close>

theorem generateBalancedDefaults_balanced_buckets:
  fixes numRounds :: nat and p :: rat
  assumes "0 \<le> p" and "p \<le> 1"
  shows "\<exists>rs. generateBalancedDefaults numRounds p seed = Inr rs \<and> length rs = numRounds \<and>
           list_all (\<lambda>r. (d_trueState r = 1 \<or> d_trueState r = 2) \<and>
                         d_senderDefault r \<noteq> None \<and> d_receiverDefault r \<noteq> None) rs \<and>
           bucket_count d_senderDefault 1 A rs = bucket_size 1 rs div 2 \<and>
           bucket_count d_senderDefault 1 B rs = bucket_size 1 rs - bucket_size 1 rs div 2 \<and>
           bucket_count d_receiverDefault 1 A rs = bucket_size 1 rs div 2 \<and>
           bucket_count d_receiverDefault 1 B rs = bucket_size 1 rs - bucket_size 1 rs div 2 \<and>
           bucket_count d_senderDefault 2 A rs = bucket_size 2 rs div 2 \<and>
           bucket_count d_senderDefault 2 B rs = bucket_size 2 rs - bucket_size 2 rs div 2 \<and>
           bucket_count d_receiverDefault 2 A rs = bucket_size 2 rs div 2 \<and>
           bucket_count d_receiverDefault 2 B rs = bucket_size 2 rs - bucket_size 2 rs div 2 \<and>
           \<bar>int (bucket_count d_senderDefault 1 A rs) - int (bucket_count d_senderDefault 1 B rs)\<bar> \<le> 1 \<and>
           \<bar>int (bucket_count d_receiverDefault 1 A rs) - int (bucket_count d_receiverDefault 1 B rs)\<bar> \<le> 1 \<and>
           \<bar>int (bucket_count d_senderDefault 2 A rs) - int (bucket_count d_senderDefault 2 B rs)\<bar> \<le> 1 \<and>
           \<bar>int (bucket_count d_receiverDefault 2 A rs) - int (bucket_count d_receiverDefault 2 B rs)\<bar> \<le> 1"
proof -
  define n1 where "n1 = nat (Math_round (js_times (of_nat numRounds) p))"
  define n2 where "n2 = numRounds - n1"
  obtain rs s1 s2 r1 r2 where g: "generateBalancedDefaults numRounds p seed = Inr rs"
    and len: "length rs = numRounds"
    and k1: "length (filter (\<lambda>r. d_trueState r = 1) rs) = n1"
    and k2: "length (filter (\<lambda>r. d_trueState r = 2) rs) = n2"
    and b1: "map (\<lambda>r. (d_senderDefault r, d_receiverDefault r)) (filter (\<lambda>r. d_trueState r = 1) rs)
               = map (\<lambda>m. (js_get s1 m, js_get r1 m)) [0..<n1]"
    and b2: "map (\<lambda>r. (d_senderDefault r, d_receiverDefault r)) (filter (\<lambda>r. d_trueState r = 2) rs)
               = map (\<lambda>m. (js_get s2 m, js_get r2 m)) [0..<n2]"
    and s1: "mset s1 = mset (fill2 (n1 div 2) A (n1 - n1 div 2) B)" "length s1 = n1"
    and r1: "mset r1 = mset (fill2 (n1 div 2) A (n1 - n1 div 2) B)" "length r1 = n1"
    and s2: "mset s2 = mset (fill2 (n2 div 2) A (n2 - n2 div 2) B)" "length s2 = n2"
    and r2: "mset r2 = mset (fill2 (n2 div 2) A (n2 - n2 div 2) B)" "length r2 = n2"
    and st: "\<forall>r \<in> set rs. d_trueState r = 1 \<or> d_trueState r = 2"
    using generate_core [OF assms, of numRounds seed] unfolding n1_def n2_def by blast
  have z1: "bucket_size 1 rs = n1" and z2: "bucket_size 2 rs = n2"
    using k1 k2 by (simp_all add: bucket_size_def)
  have half: "\<bar>int (k div 2) - int (k - k div 2)\<bar> \<le> 1" for k :: nat by linarith
  have some: "d_senderDefault x \<noteq> None \<and> d_receiverDefault x \<noteq> None" if "x \<in> set rs" for x
  proof (cases "d_trueState x = 1")
    case True
    show ?thesis by (rule bucket_defaults_some [OF b1 s1(2) s1(1) r1(2) r1(1) that True])
  next
    case False
    then have "d_trueState x = 2" using st that by blast
    then show ?thesis by (rule bucket_defaults_some [OF b2 s2(2) s2(1) r2(2) r2(1) that])
  qed
  have all: "list_all (\<lambda>r. (d_trueState r = 1 \<or> d_trueState r = 2) \<and>
                         d_senderDefault r \<noteq> None \<and> d_receiverDefault r \<noteq> None) rs"
    unfolding list_all_iff using st some by blast
  have a1: "bucket_count d_senderDefault 1 A rs = n1 div 2" "bucket_count d_senderDefault 1 B rs = n1 - n1 div 2"
    unfolding bucket_count_sender b1 using pairs_count_fst [OF s1(2) s1(1)] by simp_all
  then have c1: "\<bar>int (bucket_count d_senderDefault 1 A rs) - int (bucket_count d_senderDefault 1 B rs)\<bar> \<le> 1"
    using half [of n1] by simp
  have a2: "bucket_count d_receiverDefault 1 A rs = n1 div 2" "bucket_count d_receiverDefault 1 B rs = n1 - n1 div 2"
    unfolding bucket_count_receiver b1 using pairs_count_snd [OF r1(2) r1(1)] by simp_all
  then have c2: "\<bar>int (bucket_count d_receiverDefault 1 A rs) - int (bucket_count d_receiverDefault 1 B rs)\<bar> \<le> 1"
    using half [of n1] by simp
  have a3: "bucket_count d_senderDefault 2 A rs = n2 div 2" "bucket_count d_senderDefault 2 B rs = n2 - n2 div 2"
    unfolding bucket_count_sender b2 using pairs_count_fst [OF s2(2) s2(1)] by simp_all
  then have c3: "\<bar>int (bucket_count d_senderDefault 2 A rs) - int (bucket_count d_senderDefault 2 B rs)\<bar> \<le> 1"
    using half [of n2] by simp
  have a4: "bucket_count d_receiverDefault 2 A rs = n2 div 2" "bucket_count d_receiverDefault 2 B rs = n2 - n2 div 2"
    unfolding bucket_count_receiver b2 using pairs_count_snd [OF r2(2) r2(1)] by simp_all
  then have c4: "\<bar>int (bucket_count d_receiverDefault 2 A rs) - int (bucket_count d_receiverDefault 2 B rs)\<bar> \<le> 1"
    using half [of n2] by simp
  show ?thesis
    unfolding z1 [symmetric] z2 [symmetric]
    using g len all a1 a2 a3 a4 c1 c2 c3 c4 unfolding z1 [symmetric] z2 [symmetric] by blast
qed

text \<open>The hypotheses of C7 hold for five rounds at probability one half.\<close>

theorem generateBalancedDefaults_balanced_buckets_witness:
  "(0::rat) \<le> 1 / 2 \<and> (1 / 2 :: rat) \<le> 1 \<and>
   (\<exists>rs. generateBalancedDefaults 5 (1 / 2) (js_str ''u1-u2-s'') = Inr rs \<and> length rs = 5 \<and>
      list_all (\<lambda>r. (d_trueState r = 1 \<or> d_trueState r = 2) \<and>
                    d_senderDefault r \<noteq> None \<and> d_receiverDefault r \<noteq> None) rs \<and>
      bucket_count d_senderDefault 1 A rs = bucket_size 1 rs div 2 \<and>
      bucket_count d_senderDefault 1 B rs = bucket_size 1 rs - bucket_size 1 rs div 2 \<and>
      bucket_count d_receiverDefault 1 A rs = bucket_size 1 rs div 2 \<and>
      bucket_count d_receiverDefault 1 B rs = bucket_size 1 rs - bucket_size 1 rs div 2 \<and>
      bucket_count d_senderDefault 2 A rs = bucket_size 2 rs div 2 \<and>
      bucket_count d_senderDefault 2 B rs = bucket_size 2 rs - bucket_size 2 rs div 2 \<and>
      bucket_count d_receiverDefault 2 A rs = bucket_size 2 rs div 2 \<and>
      bucket_count d_receiverDefault 2 B rs = bucket_size 2 rs - bucket_size 2 rs div 2)"
proof -
  have h: "(0::rat) \<le> 1 / 2" "(1 / 2 :: rat) \<le> 1" by simp_all
  show ?thesis
    using generateBalancedDefaults_balanced_buckets [OF h, of 5 "js_str ''u1-u2-s''"] h by blast
qed

section \<open>Claims about \<open>SeededRandom.next\<close>\<close>

lemma seed_a: "hashString (js_str ''a'') = 97"
  by (simp add: hashString_def js_str_def toInt32_def)

lemma seed_a1: "next_seed 97 = 1814292358"
  by code_simp

lemma seed_a2: "next_seed 1814292358 = 326670336"
  by code_simp

text \<open>
  Claim C8 says that \<open>next\<close> returns \<open>state / 2^31\<close> and that the state is the exact
  linear congruence modulo \<open>2^31\<close>. On the seed \<open>"a"\<close> the first call returns
  \<open>1814292358 / 2147483647\<close>, the divisor being \<open>0x7fffffff\<close>, and the second state is
  \<open>326670336\<close>, the product having been rounded to a double, where the exact congruence
  gives \<open>326670407\<close>.
\<close>

theorem SeededRandom_next_counterexample:
  "next_value 0 (js_str ''a'') \<noteq> of_int (seed_after 1 (js_str ''a'')) / 2 ^ 31 \<and>
   seed_after 2 (js_str ''a'')
     \<noteq> (seed_after 1 (js_str ''a'') * 1103515245 + 12345) mod 2 ^ 31"
proof -
  have s1: "seed_after 1 (js_str ''a'') = 1814292358" by (simp add: seed_a seed_a1)
  have s2: "seed_after 2 (js_str ''a'') = 326670336"
    using s1 by (simp add: numeral_2_eq_2 seed_a2)
  have v: "next_value 0 (js_str ''a'') = 1814292358 / 2147483647"
    by (simp add: next_value_def SeededRandom_next_def Let_def seed_a seed_a1)
  show ?thesis unfolding s1 s2 v by simp
qed

text \<open>
  Claim C8, amended. For every string seed and after every number of calls, \<open>next\<close>
  returns \<open>state / (2^31 - 1)\<close>, a value in the half-open interval \<open>[0, 1)\<close>, where the
  state evolves as the double-precision value of \<open>state * 1103515245 + 12345\<close> reduced
  modulo \<open>2^31\<close> (the exact congruence as long as that sum stays below \<open>2^53\<close>);
  consequently the index \<open>j = floor(next() * (i + 1))\<close> of \<open>shuffle\<close> never exceeds \<open>i\<close>.
\<close>

theorem SeededRandom_next_unit_interval:
  "next_value n str = of_int (seed_after (Suc n) str) / (2 ^ 31 - 1) \<and>
   0 \<le> next_value n str \<and> next_value n str < 1 \<and>
   seed_after (Suc n) str
     = fl53 (fl53 (seed_after n str * 1103515245) + 12345) mod 2 ^ 31 \<and>
   (seed_after n str * 1103515245 + 12345 < 2 ^ 53 \<longrightarrow>
      seed_after (Suc n) str = (seed_after n str * 1103515245 + 12345) mod 2 ^ 31) \<and>
   nat \<lfloor>next_value n str * of_nat (i + 1)\<rfloor> \<le> i"
proof -
  let ?s = "seed_after n str"
  have nn: "0 \<le> ?s" by (rule seed_after_nonneg)
  obtain x s' where nx: "SeededRandom_next ?s = (x, s')" by (cases "SeededRandom_next ?s")
  then have s': "s' = seed_after (Suc n) str" and x: "x = of_int s' / 2147483647"
    by (simp_all add: SeededRandom_next_def Let_def)
  have v: "next_value n str = x" by (simp add: next_value_def nx)
  have b: "0 \<le> x" "x < 1" "nat \<lfloor>x * of_nat (i + 1)\<rfloor> \<le> i"
    using next_index_le [OF nn nx, of i] by simp_all
  have st: "seed_after (Suc n) str = fl53 (fl53 (?s * 1103515245) + 12345) mod 2 ^ 31"
    by (simp add: next_seed_mod)
  have ex: "seed_after (Suc n) str = (?s * 1103515245 + 12345) mod 2 ^ 31"
    if small: "?s * 1103515245 + 12345 < 2 ^ 53"
  proof -
    have "?s * 1103515245 < 2 ^ 53" using small by linarith
    then have "fl53 (?s * 1103515245) = ?s * 1103515245" by (rule fl53_small)
    moreover have "fl53 (?s * 1103515245 + 12345) = ?s * 1103515245 + 12345"
      using small by (rule fl53_small)
    ultimately show ?thesis using st by simp
  qed
  have q: "next_value n str = of_int (seed_after (Suc n) str) / (2 ^ 31 - 1)"
    using v x s' by simp
  show ?thesis using q b v st ex by simp
qed

text \<open>On the seed \<open>"a"\<close> the first update is exact, and the index stays in range.\<close>

theorem SeededRandom_next_unit_interval_witness:
  "seed_after 0 (js_str ''a'') * 1103515245 + 12345 < 2 ^ 53 \<and>
   seed_after (Suc 0) (js_str ''a'')
     = (seed_after 0 (js_str ''a'') * 1103515245 + 12345) mod 2 ^ 31 \<and>
   next_value 0 (js_str ''a'') < 1 \<and>
   nat \<lfloor>next_value 0 (js_str ''a'') * of_nat (3 + 1)\<rfloor> \<le> 3"
proof -
  have h: "seed_after 0 (js_str ''a'') * 1103515245 + 12345 < 2 ^ 53"
    by (simp add: seed_a)
  show ?thesis
    using h SeededRandom_next_unit_interval [of 0 "js_str ''a''" 3] by blast
qed

section \<open>Payoffs written by \<open>receiver_choice\<close>\<close>

lemma transaction_receiver_choice:
  assumes "roundMap cur (currentRound cur) = Some roundData"
  shows "transaction config stageId snapshot now userId receiver_choice payload cur =
     (if senderId cur \<noteq> Some userId \<and> receiverId cur \<noteq> Some userId
      then Inl (HttpsError permission_denied ''User is not a player in this game'')
      else on_receiver_choice config stageId now (receiverId cur = Some userId) payload cur
             (currentRound cur) roundData)"
  using assms by (simp add: transaction_def Let_def)

text \<open>
  Claim C3. For every config and every \<open>receiver_choice\<close> on a round: if the round's
  recorded \<open>senderChoice\<close> is \<open>null\<close>, both payoffs are set to 0 (the penalty for
  not submitting); otherwise choice \<open>A\<close> yields the pair \<open>payoffSenderChoiceA\<close>,
  \<open>payoffReceiverChoiceA\<close> whatever the hidden state, and choice \<open>B\<close> yields the
  \<open>B1\<close> pair when the hidden state is 1 and the \<open>B2\<close> pair when it is 2; the same
  table is what \<open>calculatePayoffs\<close> returns, and with the default payoff table choice
  \<open>B\<close> under hidden state 1 yields 0 for the sender and 36 for the receiver.
\<close>

theorem receiver_choice_payoff_rules:
  assumes "transaction config stageId snapshot now userId receiver_choice payload cur = Inr cur'"
    and "roundMap cur (currentRound cur) = Some roundData"
    and "pl_receiverChoice payload = Some c"
  shows "\<exists>r'. roundMap cur' (currentRound cur) = Some r' \<and>
           (senderChoice roundData = Null \<longrightarrow>
              senderPayoff r' = Some 0 \<and> receiverPayoff r' = Some 0) \<and>
           (senderChoice roundData \<noteq> Null \<and> c = A \<longrightarrow>
              senderPayoff r' = Some (payoffSenderChoiceA config) \<and>
              receiverPayoff r' = Some (payoffReceiverChoiceA config)) \<and>
           (senderChoice roundData \<noteq> Null \<and> c = B \<and> trueState roundData = 1 \<longrightarrow>
              senderPayoff r' = Some (payoffSenderChoiceB1 config) \<and>
              receiverPayoff r' = Some (payoffReceiverChoiceB1 config)) \<and>
           (senderChoice roundData \<noteq> Null \<and> c = B \<and> trueState roundData = 2 \<longrightarrow>
              senderPayoff r' = Some (payoffSenderChoiceB2 config) \<and>
              receiverPayoff r' = Some (payoffReceiverChoiceB2 config)) \<and>
           calculatePayoffs A ts config = (payoffSenderChoiceA config, payoffReceiverChoiceA config) \<and>
           calculatePayoffs B 1 config = (payoffSenderChoiceB1 config, payoffReceiverChoiceB1 config) \<and>
           calculatePayoffs B 2 config = (payoffSenderChoiceB2 config, payoffReceiverChoiceB2 config) \<and>
           calculatePayoffs B 1 createSenderReceiverStage = (0, 36)"
proof -
  have cp: "calculatePayoffs A ts config = (payoffSenderChoiceA config, payoffReceiverChoiceA config)"
    "calculatePayoffs B 1 config = (payoffSenderChoiceB1 config, payoffReceiverChoiceB1 config)"
    "calculatePayoffs B 2 config = (payoffSenderChoiceB2 config, payoffReceiverChoiceB2 config)"
    "calculatePayoffs B 1 createSenderReceiverStage = (0, 36)"
    by (simp_all add: calculatePayoffs_def createSenderReceiverStage_def)
  obtain dflt where
    r: "cur' = put_round cur (currentRound cur)
          (roundData
             \<lparr>receiverChoice := Some c,
              receiverSubmittedTime := Some now,
              receiverReactionTimeSeconds :=
                (case receiverUnlockedTime roundData of None \<Rightarrow> None
                 | Some unlocked \<Rightarrow> Some (of_int (now - unlocked) / 1000)),
              receiverActiveTimeSeconds := pl_activeTimeSeconds payload,
              receiverTimedOut := (case pl_isTimedOut payload of None \<Rightarrow> False | Some b \<Rightarrow> b),
              defaultReceiverChoice := dflt,
              senderPayoff := Some (fst (receiver_choice_payoffs config roundData c)),
              receiverPayoff := Some (snd (receiver_choice_payoffs config roundData c)),
              status := SHOW_FEEDBACK\<rparr>)"
    using assms(1) unfolding transaction_receiver_choice [OF assms(2)] on_receiver_choice_def
    by (auto simp: assms(3) split: if_splits sum.splits prod.splits)
  show ?thesis
    unfolding r using cp by (simp add: put_round_def receiver_choice_payoffs_def)
qed

section \<open>Rounds only move forward\<close>

lemma round_advances_refl: "round_advances r r"
  by (simp add: round_advances_def)

lemma status_rank_top: "status_rank s \<le> 3" "status_rank SHOW_FEEDBACK = 3"
  by (cases s) (simp_all add: status_rank_def)

lemma status_rank_feedback: "3 \<le> status_rank s \<Longrightarrow> s = SHOW_FEEDBACK"
  by (cases s) (simp_all add: status_rank_def)

lemma round_advances_trans:
  assumes "round_advances r r'" "round_advances r' r''"
  shows "round_advances r r''"
proof -
  have "status r = SHOW_FEEDBACK \<Longrightarrow> status r' = SHOW_FEEDBACK"
    using assms(1) status_rank_feedback [of "status r'"] by (simp add: round_advances_def status_rank_top)
  then show ?thesis using assms by (auto simp: round_advances_def)
qed

lemma data_advances_refl: "data_advances cur cur"
  by (simp add: data_advances_def round_advances_refl)

lemma data_advances_trans:
  "data_advances a b \<Longrightarrow> data_advances b c \<Longrightarrow> data_advances a c"
  unfolding data_advances_def by (meson round_advances_trans)

lemma data_advances_put:
  assumes "roundMap cur n = Some r" "round_advances r r'"
  shows "data_advances cur (put_round cur n r')"
  using assms by (auto simp: data_advances_def put_round_def round_advances_refl)

lemma data_advances_new:
  assumes "roundMap cur n = None"
  shows "data_advances cur (put_round cur n r')"
  using assms by (auto simp: data_advances_def put_round_def round_advances_refl)

lemma data_advances_fields:
  "roundMap cur' = roundMap cur \<Longrightarrow> data_advances cur cur'"
  by (simp add: data_advances_def round_advances_refl)

lemma on_start_game_advances:
  assumes "on_start_game now isS isR cur idx rd = Inr cur'" "roundMap cur idx = Some rd"
  shows "data_advances cur cur'"
proof (cases "status rd = WAITING_BOTH_START")
  case False
  then show ?thesis using assms by (simp add: on_start_game_def data_advances_refl)
next
  case True
  then obtain r' where c: "cur' = put_round cur idx r'" and "round_advances rd r'"
    using assms(1)
    by (auto simp: on_start_game_def Let_def round_advances_def status_rank_def split: if_splits)
  then show ?thesis using data_advances_put [OF assms(2)] by simp
qed

lemma on_sender_signal_advances:
  assumes "on_sender_signal config stageId now isS payload cur idx rd = Inr cur'"
    "roundMap cur idx = Some rd"
  shows "data_advances cur cur'"
proof -
  obtain r' where c: "cur' = put_round cur idx r'" and "round_advances rd r'"
    using assms(1)
    by (auto simp: on_sender_signal_def Let_def round_advances_def status_rank_def
             split: if_splits sum.splits)
  then show ?thesis using data_advances_put [OF assms(2)] by simp
qed

lemma on_receiver_saw_message_advances:
  assumes "on_receiver_saw_message now isR cur idx rd = Inr cur'" "roundMap cur idx = Some rd"
  shows "data_advances cur cur'"
proof -
  have "cur' = cur \<or> (\<exists>r'. cur' = put_round cur idx r' \<and> round_advances rd r')"
    using assms(1)
    by (auto simp: on_receiver_saw_message_def round_advances_def split: if_splits)
  then show ?thesis using data_advances_put [OF assms(2)] data_advances_refl by auto
qed

lemma on_receiver_choice_advances:
  assumes "on_receiver_choice config stageId now isR payload cur idx rd = Inr cur'"
    "roundMap cur idx = Some rd"
  shows "data_advances cur cur'"
proof -
  obtain r' where c: "cur' = put_round cur idx r'" and "round_advances rd r'"
    using assms(1)
    by (auto simp: on_receiver_choice_def Let_def round_advances_def status_rank_def
             split: if_splits sum.splits option.splits prod.splits)
  then show ?thesis using data_advances_put [OF assms(2)] by simp
qed

lemma put_round_fields [simp]:
  "senderId (put_round cur n r) = senderId cur"
  "receiverId (put_round cur n r) = receiverId cur"
  "currentRound (put_round cur n r) = currentRound cur"
  "roundMap (put_round cur n r) = (roundMap cur)(n \<mapsto> r)"
  by (simp_all add: put_round_def)

lemma data_advances_current:
  "data_advances cur cur' \<Longrightarrow> data_advances cur (cur'\<lparr>currentRound := k\<rparr>)"
  by (simp add: data_advances_def)

lemma on_next_round_advances:
  assumes "on_next_round config stageId now userId cur idx rd = Inr cur'"
    "roundMap cur idx = Some rd"
  shows "data_advances cur cur'"
proof (cases "status rd = SHOW_FEEDBACK")
  case False
  then show ?thesis using assms by (simp add: on_next_round_def data_advances_refl)
next
  case True
  define r1 where "r1 = (if senderId cur = Some userId then rd\<lparr>senderReadyNext := Some True\<rparr>
                         else if receiverId cur = Some userId then rd\<lparr>receiverReadyNext := Some True\<rparr>
                         else rd)"
  define cur1 where "cur1 = put_round cur idx r1"
  have a1: "round_advances rd r1" by (simp add: r1_def round_advances_def)
  have d1: "data_advances cur cur1" unfolding cur1_def by (rule data_advances_put [OF assms(2) a1])
  have same: "put_round cur idx rd = cur" using assms(2) by (simp add: put_round_def fun_upd_idem)
  have "cur' = cur1 \<or> cur' = cur1\<lparr>currentRound := idx + 1\<rparr> \<or>
        (\<exists>r'. roundMap cur (idx + 1) = None \<and> cur' = (put_round cur1 (idx + 1) r')\<lparr>currentRound := idx + 1\<rparr>)"
    using assms(1) True same
    by (auto simp: on_next_round_def Let_def cur1_def r1_def split: if_splits sum.splits)
  moreover have "data_advances cur (put_round cur1 (idx + 1) r')" if "roundMap cur (idx + 1) = None" for r'
  proof -
    have "roundMap cur1 (idx + 1) = None" using that by (simp add: cur1_def)
    then have "data_advances cur1 (put_round cur1 (idx + 1) r')" by (rule data_advances_new)
    then show ?thesis using d1 data_advances_trans by blast
  qed
  ultimately show ?thesis using d1 data_advances_current by blast
qed

lemma assign_advances:
  assumes "assign cur config stageId now userId r = Inr cur'"
  shows "data_advances cur cur'"
proof -
  define sim where "sim = (case r of sender \<Rightarrow> cur\<lparr>senderId := Some userId\<rparr>
                                   | receiver \<Rightarrow> cur\<lparr>receiverId := Some userId\<rparr>)"
  have rm: "roundMap sim = roundMap cur" by (cases r) (simp_all add: sim_def)
  have d: "data_advances cur sim" using rm by (rule data_advances_fields)
  have "cur' = sim \<or> (\<exists>fr. roundMap sim 1 = None \<and> cur' = (put_round sim 1 fr)\<lparr>currentRound := 1\<rparr>)"
    using assms unfolding assign_def sim_def [symmetric] Let_def
    by (auto simp: startGameIfReady_def split: sum.splits option.splits if_splits)
  moreover have "data_advances cur (put_round sim 1 fr)" if "roundMap sim 1 = None" for fr
    using data_advances_trans [OF d data_advances_new [OF that]] .
  ultimately show ?thesis using d data_advances_current by blast
qed

lemma on_assign_role_advances:
  assumes "on_assign_role config stageId snapshot now userId payload cur = Inr cur'"
  shows "data_advances cur cur'"
proof -
  have "cur' = cur \<or> (\<exists>r. assign cur config stageId now userId r = Inr cur')"
    using assms
    by (auto simp: on_assign_role_def Let_def split: if_splits option.splits)
  then show ?thesis using assign_advances data_advances_refl by blast
qed

lemma transaction_advances:
  assumes "transaction config stageId snapshot now userId act payload cur = Inr cur'"
  shows "data_advances cur cur'"
proof (cases "act = assign_role")
  case True
  then show ?thesis using assms on_assign_role_advances by (simp add: transaction_def)
next
  case False
  then obtain rd where rd: "roundMap cur (currentRound cur) = Some rd"
    using assms by (auto simp: transaction_def Let_def split: if_splits option.splits)
  show ?thesis
    using assms False rd on_start_game_advances [OF _ rd] on_sender_signal_advances [OF _ rd]
      on_receiver_saw_message_advances [OF _ rd] on_receiver_choice_advances [OF _ rd]
      on_next_round_advances [OF _ rd]
    by (cases act) (auto simp: transaction_def Let_def split: if_splits)
qed

lemma stored_after_advances: "data_advances cur (stored_after cur (call config stageId c cur))"
proof (cases "call config stageId c cur")
  case (Inl e)
  then show ?thesis by (simp add: stored_after_def data_advances_refl)
next
  case (Inr cur')
  then have "data_advances cur cur'"
    using transaction_advances by (auto simp: call_def split: if_splits)
  then show ?thesis using Inr by (simp add: stored_after_def)
qed

lemma run_calls_advances: "data_advances cur (run_calls config stageId cs cur)"
proof (induction cs arbitrary: cur)
  case Nil
  then show ?case by (simp add: data_advances_refl)
next
  case (Cons c cs)
  show ?case
    using data_advances_trans [OF stored_after_advances Cons.IH] by simp
qed

text \<open>
  Claim C5. For every state of an instance, in particular every reachable one, and every
  subsequent sequence of client actions: once a round's status is \<open>SHOW_FEEDBACK\<close>, that
  round's \<open>senderChoice\<close>, \<open>receiverChoice\<close>, \<open>senderPayoff\<close> and
  \<open>receiverPayoff\<close> never change again, and no round's status ever moves backward in
  the order \<open>WAITING_BOTH_START\<close>, \<open>WAITING_SENDER_DECIDE\<close>,
  \<open>WAITING_RECEIVER_DECIDE\<close>, \<open>SHOW_FEEDBACK\<close>.
\<close>

theorem rounds_never_regress:
  assumes "roundMap cur n = Some r"
  shows "\<exists>r'. roundMap (run_calls config stageId calls cur) n = Some r' \<and>
           status_rank (status r) \<le> status_rank (status r') \<and>
           (status r = SHOW_FEEDBACK \<longrightarrow>
              status r' = SHOW_FEEDBACK \<and>
              senderChoice r' = senderChoice r \<and> receiverChoice r' = receiverChoice r \<and>
              senderPayoff r' = senderPayoff r \<and> receiverPayoff r' = receiverPayoff r)"
proof -
  obtain r' where r': "roundMap (run_calls config stageId calls cur) n = Some r'"
    and a: "round_advances r r'"
    using run_calls_advances [of cur config stageId calls] assms unfolding data_advances_def by blast
  have "status r = SHOW_FEEDBACK \<Longrightarrow> status r' = SHOW_FEEDBACK"
    using a status_rank_feedback [of "status r'"] by (simp add: round_advances_def status_rank_top)
  then show ?thesis using r' a unfolding round_advances_def by blast
qed

section \<open>What holds of every reachable document\<close>

lemma createNewRound_props:
  assumes "createNewRound n config seed isFirst now = Inr fr"
  shows "\<exists>d. roundDefaults n config seed = Inr d"
    and "status fr = (if isFirst then WAITING_BOTH_START else WAITING_SENDER_DECIDE)"
    and "senderReadyNext fr = None" and "receiverReadyNext fr = None"
  using assms by (auto simp: createNewRound_def split: sum.splits)

lemma effect_assign:
  assumes "assign cur config stageId now userId r = Inr cur'"
  defines "sim \<equiv> (case r of sender \<Rightarrow> cur\<lparr>senderId := Some userId\<rparr>
                            | receiver \<Rightarrow> cur\<lparr>receiverId := Some userId\<rparr>)"
  shows "(cur' = sim \<and> (falsy (senderId sim) \<or> falsy (receiverId sim) \<or> roundMap sim 1 \<noteq> None)) \<or>
         (\<exists>fr. \<not> falsy (senderId sim) \<and> \<not> falsy (receiverId sim) \<and> roundMap sim 1 = None \<and>
            createNewRound 1 config (pairSeed sim stageId) True now = Inr fr \<and>
            cur' = (put_round sim 1 fr)\<lparr>currentRound := 1\<rparr>)"
  using assms(1) unfolding assign_def sim_def [symmetric] Let_def
  by (auto simp: startGameIfReady_def split: sum.splits option.splits if_splits)

lemma effect_assign_role:
  assumes "on_assign_role config stageId snapshot now userId payload cur = Inr cur'"
  shows "(cur' = cur \<and> (senderId cur = Some userId \<or> receiverId cur = Some userId)) \<or>
         (senderId cur \<noteq> Some userId \<and> receiverId cur \<noteq> Some userId \<and>
          ((falsy (senderId cur) \<and> assign cur config stageId now userId sender = Inr cur') \<or>
           (falsy (receiverId cur) \<and> assign cur config stageId now userId receiver = Inr cur')))"
  using assms
  by (auto simp: on_assign_role_def Let_def split: if_splits option.splits role.splits)

lemma falsy_iff: "x \<noteq> Some [] \<Longrightarrow> falsy x \<longleftrightarrow> x = None"
  by (cases x) (simp_all add: falsy_def)

lemma pairSeed_cong:
  "senderId a = senderId b \<Longrightarrow> receiverId a = receiverId b \<Longrightarrow> pairSeed a s = pairSeed b s"
  by (simp add: pairSeed_def)

lemma inv_init: "doc_inv config stageId createSenderReceiverStagePublicData"
  by (simp add: doc_inv_def inv_ids_def inv_rounds_def inv_first_def inv_flags_def
      createSenderReceiverStagePublicData_def)

lemma inv_no_rounds:
  assumes "inv_rounds config stageId cur" "senderId cur = None \<or> receiverId cur = None"
  shows "roundMap cur n = None"
  using assms unfolding inv_rounds_def by (cases "roundMap cur n") auto

lemma inv_assign:
  assumes i: "doc_inv config stageId cur" and u: "userId \<noteq> []"
    and nh: "senderId cur \<noteq> Some userId" "receiverId cur \<noteq> Some userId"
    and f: "(case r of sender \<Rightarrow> falsy (senderId cur) | receiver \<Rightarrow> falsy (receiverId cur))"
    and a: "assign cur config stageId now userId r = Inr cur'"
  shows "doc_inv config stageId cur'"
proof -
  define sim where "sim = (case r of sender \<Rightarrow> cur\<lparr>senderId := Some userId\<rparr>
                                   | receiver \<Rightarrow> cur\<lparr>receiverId := Some userId\<rparr>)"
  have ids: "inv_ids cur" and rounds: "inv_rounds config stageId cur"
    using i by (simp_all add: doc_inv_def)
  have free: "(case r of sender \<Rightarrow> senderId cur = None | receiver \<Rightarrow> receiverId cur = None)"
    using f ids by (cases r) (simp_all add: inv_ids_def falsy_iff)
  then have empty: "roundMap cur n = None" for n
    using inv_no_rounds [OF rounds] by (cases r) simp_all
  have sim_rm: "roundMap sim = roundMap cur" and sim_cr: "currentRound sim = currentRound cur"
    by (cases r; simp add: sim_def)+
  have sim_ids: "inv_ids sim"
    using ids u nh free by (cases r) (auto simp: sim_def inv_ids_def)
  have sim_falsy: "falsy (senderId sim) \<longleftrightarrow> senderId sim = None"
    "falsy (receiverId sim) \<longleftrightarrow> receiverId sim = None"
    using sim_ids by (simp_all add: inv_ids_def falsy_iff)
  consider (plain) "cur' = sim" "senderId sim = None \<or> receiverId sim = None"
    | (first) fr where "senderId sim \<noteq> None" "receiverId sim \<noteq> None"
        "createNewRound 1 config (pairSeed sim stageId) True now = Inr fr"
        "cur' = (put_round sim 1 fr)\<lparr>currentRound := 1\<rparr>"
    using effect_assign [OF a] unfolding sim_def [symmetric] sim_falsy
    by (auto simp: sim_rm empty)
  then show ?thesis
  proof cases
    case plain
    have "inv_rounds config stageId sim" using empty by (simp add: inv_rounds_def sim_rm)
    moreover have "inv_first sim" using plain(2) by (auto simp: inv_first_def)
    moreover have "inv_flags sim" using empty by (simp add: inv_flags_def sim_rm)
    ultimately show ?thesis using plain(1) sim_ids by (simp add: doc_inv_def)
  next
    case first
    have rm: "roundMap cur' = [1 \<mapsto> fr]"
      using first(4) empty by (auto simp: sim_rm fun_eq_iff)
    have idc: "senderId cur' = senderId sim" "receiverId cur' = receiverId sim" "currentRound cur' = 1"
      using first(4) by simp_all
    have ps: "pairSeed cur' stageId = pairSeed sim stageId" by (rule pairSeed_cong) (simp_all add: idc)
    obtain d where d: "roundDefaults 1 config (pairSeed sim stageId) = Inr d"
      using createNewRound_props(1) [OF first(3)] by blast
    have fl: "senderReadyNext fr = None" using createNewRound_props(3) [OF first(3)] .
    have "inv_ids cur'" using sim_ids by (simp add: inv_ids_def idc)
    moreover have "inv_rounds config stageId cur'"
      using first(1,2) d by (auto simp: inv_rounds_def rm idc ps split: if_splits)
    moreover have "inv_first cur'" by (simp add: inv_first_def rm)
    moreover have "inv_flags cur'" using fl by (auto simp: inv_flags_def rm truthy_def split: if_splits)
    ultimately show ?thesis by (simp add: doc_inv_def)
  qed
qed

lemma inv_assign_role:
  assumes "doc_inv config stageId cur" and "userId \<noteq> []"
    and "on_assign_role config stageId snapshot now userId payload cur = Inr cur'"
  shows "doc_inv config stageId cur'"
  using effect_assign_role [OF assms(3)] assms(1,2)
    inv_assign [of config stageId cur userId sender now cur']
    inv_assign [of config stageId cur userId receiver now cur']
  by auto

lemma generate_length:
  assumes "generateBalancedDefaults n p seed = Inr rs"
  shows "length rs = n"
  using assms unfolding generateBalancedDefaults_def Let_def
  by (auto simp: results_loop_length split: if_splits prod.splits)

lemma roundDefaults_iff:
  "(\<exists>d. roundDefaults m config seed = Inr d) \<longleftrightarrow>
   (\<exists>rs. generateBalancedDefaults (numRounds config) (probability config) seed = Inr rs) \<and>
   1 \<le> m \<and> m \<le> numRounds config"
  by (auto simp: roundDefaults_def getRoundDefault_def generate_length
           split: sum.splits option.splits if_splits)

lemma roundDefaults_other:
  assumes "roundDefaults n config seed = Inr d" "1 \<le> m" "m \<le> numRounds config"
  shows "\<exists>d'. roundDefaults m config seed = Inr d'"
  using assms roundDefaults_iff [of n config seed] roundDefaults_iff [of m config seed] by blast

lemma inv_put_same_flags:
  assumes "doc_inv config stageId cur" and "roundMap cur (currentRound cur) = Some rd"
    and "senderReadyNext r' = senderReadyNext rd" and "receiverReadyNext r' = receiverReadyNext rd"
  shows "doc_inv config stageId (put_round cur (currentRound cur) r')"
proof -
  let ?c = "put_round cur (currentRound cur) r'"
  have ps: "pairSeed ?c stageId = pairSeed cur stageId" by (rule pairSeed_cong) simp_all
  have "inv_ids ?c" using assms(1) by (simp add: doc_inv_def inv_ids_def)
  moreover have "inv_rounds config stageId ?c"
    using assms(1,2) unfolding doc_inv_def inv_rounds_def ps by (auto split: if_splits)
  moreover have "inv_first ?c" using assms(1) by (simp add: doc_inv_def inv_first_def)
  moreover have "inv_flags ?c"
    using assms unfolding doc_inv_def inv_flags_def by (auto split: if_splits)
  ultimately show ?thesis by (simp add: doc_inv_def)
qed

lemma effect_start_game:
  assumes "on_start_game now isS isR cur idx rd = Inr cur'"
  shows "cur' = cur \<or> (\<exists>r'. cur' = put_round cur idx r' \<and>
           senderReadyNext r' = senderReadyNext rd \<and> receiverReadyNext r' = receiverReadyNext rd)"
  using assms by (auto simp: on_start_game_def Let_def split: if_splits)

lemma effect_sender_signal:
  assumes "on_sender_signal config stageId now isS payload cur idx rd = Inr cur'"
  shows "\<exists>r'. cur' = put_round cur idx r' \<and>
           senderReadyNext r' = senderReadyNext rd \<and> receiverReadyNext r' = receiverReadyNext rd"
  using assms by (auto simp: on_sender_signal_def Let_def split: if_splits sum.splits)

lemma effect_receiver_saw_message:
  assumes "on_receiver_saw_message now isR cur idx rd = Inr cur'"
  shows "cur' = cur \<or> (\<exists>r'. cur' = put_round cur idx r' \<and>
           senderReadyNext r' = senderReadyNext rd \<and> receiverReadyNext r' = receiverReadyNext rd)"
  using assms by (auto simp: on_receiver_saw_message_def split: if_splits)

lemma effect_receiver_choice:
  assumes "on_receiver_choice config stageId now isR payload cur idx rd = Inr cur'"
  shows "\<exists>r'. cur' = put_round cur idx r' \<and>
           senderReadyNext r' = senderReadyNext rd \<and> receiverReadyNext r' = receiverReadyNext rd"
  using assms
  by (auto simp: on_receiver_choice_def Let_def split: if_splits sum.splits option.splits prod.splits)

text \<open>The round as \<open>next_round\<close> leaves it once the caller's flag is set.\<close>

lemma effect_next_round:
  assumes "on_next_round config stageId now userId cur idx rd = Inr cur'"
    and "senderId cur = Some userId \<or> receiverId cur = Some userId"
  defines "r1 \<equiv> (if senderId cur = Some userId then rd\<lparr>senderReadyNext := Some True\<rparr>
                  else rd\<lparr>receiverReadyNext := Some True\<rparr>)"
  defines "adv \<equiv> (if senderId cur = Some userId then truthy (receiverReadyNext rd)
                   else truthy (senderReadyNext rd))"
  shows "(status rd \<noteq> SHOW_FEEDBACK \<and> cur' = cur) \<or>
         (status rd = SHOW_FEEDBACK \<and> \<not> adv \<and> cur' = put_round cur idx r1) \<or>
         (status rd = SHOW_FEEDBACK \<and> adv \<and> numRounds config < idx + 1 \<and>
            cur' = (put_round cur idx r1)\<lparr>currentRound := idx + 1\<rparr>) \<or>
         (status rd = SHOW_FEEDBACK \<and> adv \<and> idx + 1 \<le> numRounds config \<and>
            roundMap cur (idx + 1) \<noteq> None \<and> cur' = put_round cur idx r1) \<or>
         (status rd = SHOW_FEEDBACK \<and> adv \<and> idx + 1 \<le> numRounds config \<and>
            roundMap cur (idx + 1) = None \<and>
            (\<exists>d. roundDefaults (idx + 1) config (pairSeed cur stageId) = Inr d \<and>
               cur' = (put_round (put_round cur idx r1) (idx + 1)
                         (newRoundData (idx + 1) (d_trueState d) now))\<lparr>currentRound := idx + 1\<rparr>))"
  using assms(1,2) unfolding r1_def adv_def
  by (auto simp: on_next_round_def Let_def split: if_splits sum.splits)

lemma newRoundData_flags [simp]:
  "senderReadyNext (newRoundData n s now) = None"
  "receiverReadyNext (newRoundData n s now) = None"
  "status (newRoundData n s now) = WAITING_SENDER_DECIDE"
  by (simp_all add: newRoundData_def)

lemma inv_next_round:
  assumes i: "doc_inv config stageId cur" and rd: "roundMap cur (currentRound cur) = Some rd"
    and pl: "senderId cur = Some userId \<or> receiverId cur = Some userId"
    and n: "on_next_round config stageId now userId cur (currentRound cur) rd = Inr cur'"
  shows "doc_inv config stageId cur'"
proof -
  let ?idx = "currentRound cur"
  define r1 where "r1 = (if senderId cur = Some userId then rd\<lparr>senderReadyNext := Some True\<rparr>
                         else rd\<lparr>receiverReadyNext := Some True\<rparr>)"
  define adv where "adv = (if senderId cur = Some userId then truthy (receiverReadyNext rd)
                           else truthy (senderReadyNext rd))"
  define cur1 where "cur1 = put_round cur ?idx r1"
  have ids: "inv_ids cur" and rounds: "inv_rounds config stageId cur"
    and first: "inv_first cur" and flags: "inv_flags cur"
    using i by (simp_all add: doc_inv_def)
  have nonext: "roundMap cur (?idx + 1) = None"
    using rounds unfolding inv_rounds_def by (cases "roundMap cur (?idx + 1)") auto
  have ps1: "pairSeed cur1 stageId = pairSeed cur stageId"
    by (rule pairSeed_cong) (simp_all add: cur1_def)
  have ids1: "inv_ids cur1" using ids by (simp add: inv_ids_def cur1_def)
  have first1: "inv_first cur1" using first by (simp add: inv_first_def cur1_def)
  have rounds1: "inv_rounds config stageId cur1"
    using rounds rd unfolding inv_rounds_def ps1 by (auto simp: cur1_def split: if_splits)
  have flags_old: "\<not> (truthy (senderReadyNext rd) \<and> truthy (receiverReadyNext rd))"
    using flags rd unfolding inv_flags_def by blast
  have both: "truthy (senderReadyNext r1) \<and> truthy (receiverReadyNext r1) \<longleftrightarrow> adv"
    using flags_old by (auto simp: r1_def adv_def truthy_def)
  have flags1: "\<not> adv \<Longrightarrow> inv_flags cur1"
    using flags both unfolding inv_flags_def by (auto simp: cur1_def split: if_splits)
  have flags1': "\<forall>n r. roundMap cur1 n = Some r \<and> truthy (senderReadyNext r) \<and>
                   truthy (receiverReadyNext r) \<longrightarrow> n < ?idx + 1"
    using flags unfolding inv_flags_def by (fastforce simp: cur1_def split: if_splits)
  consider (same) "cur' = cur" | (flag) "\<not> adv" "cur' = cur1"
    | (finished) "cur' = cur1\<lparr>currentRound := ?idx + 1\<rparr>"
    | (new) d where "roundDefaults (?idx + 1) config (pairSeed cur stageId) = Inr d"
        "cur' = (put_round cur1 (?idx + 1) (newRoundData (?idx + 1) (d_trueState d) now))
                  \<lparr>currentRound := ?idx + 1\<rparr>"
    using effect_next_round [OF n pl] nonext unfolding r1_def [symmetric] adv_def [symmetric]
      cur1_def [symmetric] by auto
  then show ?thesis
  proof cases
    case same
    then show ?thesis using i by simp
  next
    case flag
    then show ?thesis using ids1 rounds1 first1 flags1 by (simp add: doc_inv_def)
  next
    case finished
    have ps: "pairSeed cur' stageId = pairSeed cur1 stageId"
      by (rule pairSeed_cong) (simp_all add: finished)
    have "inv_ids cur'" using ids1 by (simp add: inv_ids_def finished)
    moreover have "inv_rounds config stageId cur'"
      unfolding inv_rounds_def ps
    proof (intro allI impI)
      fix n r assume "roundMap cur' n = Some r"
      then have "roundMap cur1 n = Some r" by (simp add: finished)
      then have "n \<le> currentRound cur1 \<and> senderId cur1 \<noteq> None \<and> receiverId cur1 \<noteq> None \<and>
                 (\<exists>d. roundDefaults n config (pairSeed cur1 stageId) = Inr d)"
        using rounds1 unfolding inv_rounds_def by blast
      then show "n \<le> currentRound cur' \<and> senderId cur' \<noteq> None \<and> receiverId cur' \<noteq> None \<and>
                 (\<exists>d. roundDefaults n config (pairSeed cur1 stageId) = Inr d)"
        by (simp add: finished cur1_def)
    qed
    moreover have "inv_first cur'" using first1 by (simp add: inv_first_def finished)
    moreover have "inv_flags cur'" using flags1' by (simp add: inv_flags_def finished)
    ultimately show ?thesis by (simp add: doc_inv_def)
  next
    case new
    have ps: "pairSeed cur' stageId = pairSeed cur stageId"
      by (rule pairSeed_cong) (simp_all add: new(2) cur1_def)
    have idsset: "senderId cur \<noteq> None" "receiverId cur \<noteq> None"
      using rounds rd unfolding inv_rounds_def by blast+
    have "inv_ids cur'" using ids by (simp add: inv_ids_def new(2) cur1_def)
    moreover have "inv_rounds config stageId cur'"
      unfolding inv_rounds_def ps
    proof (intro allI impI)
      fix n r assume a: "roundMap cur' n = Some r"
      show "n \<le> currentRound cur' \<and> senderId cur' \<noteq> None \<and> receiverId cur' \<noteq> None \<and>
            (\<exists>d. roundDefaults n config (pairSeed cur stageId) = Inr d)"
      proof (cases "n = currentRound cur + 1")
        case True
        then show ?thesis using new(1) idsset by (auto simp: new(2) cur1_def)
      next
        case False
        then have "roundMap cur1 n = Some r" using a by (simp add: new(2))
        then have "n \<le> currentRound cur1 \<and>
                   (\<exists>d. roundDefaults n config (pairSeed cur1 stageId) = Inr d)"
          using rounds1 unfolding inv_rounds_def by blast
        then show ?thesis using idsset unfolding ps1 by (simp add: new(2) cur1_def)
      qed
    qed
    moreover have "inv_first cur'" using first1 by (simp add: inv_first_def new(2))
    moreover have "inv_flags cur'"
      using flags1' unfolding inv_flags_def by (auto simp: new(2) truthy_def split: if_splits)
    ultimately show ?thesis by (simp add: doc_inv_def)
  qed
qed

lemma inv_transaction:
  assumes i: "doc_inv config stageId cur" and u: "userId \<noteq> []"
    and t: "transaction config stageId snapshot now userId act payload cur = Inr cur'"
  shows "doc_inv config stageId cur'"
proof (cases "act = assign_role")
  case True
  then show ?thesis using t inv_assign_role [OF i u] by (simp add: transaction_def)
next
  case False
  then obtain rd where rd: "roundMap cur (currentRound cur) = Some rd"
    and pl: "senderId cur = Some userId \<or> receiverId cur = Some userId"
    using t by (auto simp: transaction_def Let_def split: if_splits option.splits)
  have keep: "doc_inv config stageId (put_round cur (currentRound cur) r')"
    if "senderReadyNext r' = senderReadyNext rd" "receiverReadyNext r' = receiverReadyNext rd" for r'
    using inv_put_same_flags [OF i rd that] .
  show ?thesis
  proof (cases act)
    case assign_role
    then show ?thesis using False by simp
  next
    case start_game
    then show ?thesis using t rd pl i keep effect_start_game
      by (fastforce simp: transaction_def Let_def split: if_splits)
  next
    case sender_signal
    then show ?thesis using t rd pl i keep effect_sender_signal
      by (fastforce simp: transaction_def Let_def split: if_splits)
  next
    case receiver_saw_message
    then show ?thesis using t rd pl i keep effect_receiver_saw_message
      by (fastforce simp: transaction_def Let_def split: if_splits)
  next
    case receiver_choice
    then show ?thesis using t rd pl i keep effect_receiver_choice
      by (fastforce simp: transaction_def Let_def split: if_splits)
  next
    case next_round
    then show ?thesis using t rd pl inv_next_round [OF i rd pl]
      by (auto simp: transaction_def Let_def split: if_splits)
  qed
qed

lemma reachable_inv: "reachable config stageId cur \<Longrightarrow> doc_inv config stageId cur"
proof (induction rule: reachable.induct)
  case reachable_init
  then show ?case by (rule inv_init)
next
  case (reachable_call cur c cur')
  then show ?case using inv_transaction by (auto simp: call_def split: if_splits)
qed

lemma reachable_run_calls:
  "reachable config stageId cur \<Longrightarrow> reachable config stageId (run_calls config stageId cs cur)"
proof (induction cs arbitrary: cur)
  case Nil
  then show ?case by simp
next
  case (Cons c cs)
  have "reachable config stageId (stored_after cur (call config stageId c cur))"
    using Cons.prems reachable_call [of config stageId cur c]
    by (cases "call config stageId c cur") (simp_all add: stored_after_def)
  then show ?case using Cons.IH by simp
qed

section \<open>The sample game, evaluated\<close>

lemma sample_seed: "hashString (js_str ''u1-u2-s'') = 2088329772"
  by (simp add: hashString_def js_str_def toInt32_def)

lemma sample_seed1: "next_seed 2088329772 = 362833152"
  by code_simp

lemma sample_round: "Math_round (js_times (of_nat 2) (1 / 2)) = 1"
  by code_simp

lemma sample_index: "nat \<lfloor>(362833152 :: rat) / 2147483647 * of_nat (Suc 0 + 1)\<rfloor> = 0"
proof -
  have "\<lfloor>(362833152 :: rat) / 2147483647 * of_nat (Suc 0 + 1)\<rfloor> = 0"
    by (simp add: floor_eq_iff)
  then show ?thesis by simp
qed

lemma shuffle_short: "length xs \<le> 1 \<Longrightarrow> shuffle xs s = (xs, s)"
  by (cases xs) (simp_all add: shuffle_def)

lemma sample_shuffle:
  "shuffle [Some (1::nat), Some 2] 2088329772 = ([Some 2, Some 1], 362833152)"
proof -
  have n: "SeededRandom_next 2088329772 = (362833152 / 2147483647, 362833152)"
    by (simp add: SeededRandom_next_def sample_seed1)
  have "shuffle [Some (1::nat), Some 2] 2088329772
        = shuffle_loop (Suc 0) [Some 1, Some 2] 2088329772" by (simp add: shuffle_def)
  also have "\<dots> = shuffle_loop 0 (js_swap (Suc 0) 0 [Some 1, Some 2]) 362833152"
    unfolding shuffle_loop.simps Let_def n prod.case sample_index ..
  also have "\<dots> = ([Some 2, Some 1], 362833152)"
    by (simp add: js_swap_def js_get_def js_set_def)
  finally show ?thesis .
qed

lemma sample_generate:
  "generateBalancedDefaults 2 (1 / 2) (js_str ''u1-u2-s'') =
     Inr [\<lparr>d_round = 1, d_trueState = 2, d_senderDefault = Some B, d_receiverDefault = Some B\<rparr>,
          \<lparr>d_round = 2, d_trueState = 1, d_senderDefault = Some B, d_receiverDefault = Some B\<rparr>]"
proof -
  have f: "fill2 (nat 1) (1::nat) (nat (int 2 - 1)) 2 = [Some 1, Some 2]"
    "fill2 (nat 1 div 2) A (nat 1 - nat 1 div 2) B = [Some B]"
    "fill2 (nat (int 2 - 1) div 2) A (nat (int 2 - 1) - nat (int 2 - 1) div 2) B = [Some B]"
    by (simp_all add: fill2_def)
  have s: "shuffle [Some B] g = ([Some B], g)" for g by (rule shuffle_short) simp
  have l: "results_loop 2 0 0 0 [Some 2, Some 1] [Some B] [Some B] [Some B] [Some B] [] =
     [\<lparr>d_round = 1, d_trueState = 2, d_senderDefault = Some B, d_receiverDefault = Some B\<rparr>,
      \<lparr>d_round = 2, d_trueState = 1, d_senderDefault = Some B, d_receiverDefault = Some B\<rparr>]"
    by (simp add: numeral_2_eq_2 js_get_def)
  show ?thesis
    unfolding generateBalancedDefaults_def Let_def sample_round f sample_seed sample_shuffle s
      prod.case l by simp
qed

lemma sample_pairSeed:
  "senderId cur = Some ''u1'' \<Longrightarrow> receiverId cur = Some ''u2''
   \<Longrightarrow> pairSeed cur ''s'' = js_str ''u1-u2-s''"
  by (simp add: pairSeed_def id_text_def)

lemma sample_roundDefaults:
  "roundDefaults 1 sample_config (js_str ''u1-u2-s'') =
     Inr \<lparr>d_round = 1, d_trueState = 2, d_senderDefault = Some B, d_receiverDefault = Some B\<rparr>"
  "roundDefaults 2 sample_config (js_str ''u1-u2-s'') =
     Inr \<lparr>d_round = 2, d_trueState = 1, d_senderDefault = Some B, d_receiverDefault = Some B\<rparr>"
  by (simp_all add: roundDefaults_def getRoundDefault_def sample_config_def probability_def
      createSenderReceiverStage_def sample_generate)

lemma sample_roundDefaults_Suc:
  "roundDefaults (Suc 0) sample_config (js_str ''u1-u2-s'') =
     Inr \<lparr>d_round = 1, d_trueState = 2, d_senderDefault = Some B, d_receiverDefault = Some B\<rparr>"
  "roundDefaults (Suc (Suc 0)) sample_config (js_str ''u1-u2-s'') =
     Inr \<lparr>d_round = 2, d_trueState = 1, d_senderDefault = Some B, d_receiverDefault = Some B\<rparr>"
  using sample_roundDefaults by (simp_all add: numeral_2_eq_2)

lemma sample_paired_eq:
  "sample_paired =
     \<lparr>senderId = Some ''u1'', receiverId = Some ''u2'', currentRound = 1,
      roundMap = [1 \<mapsto>
        \<lparr>roundNumber = 1, trueState = 2, status = WAITING_BOTH_START,
         senderReadyStart = Some False, receiverReadyStart = Some False,
         senderChoice = Undefined, senderLabel = Null, senderMessage = None,
         receiverChoice = None, defaultSenderChoice = Undefined,
         defaultSenderLabel = Null, defaultReceiverChoice = None,
         senderTimedOut = False, receiverTimedOut = False, senderPayoff = None,
         receiverPayoff = None, senderReadyNext = None,
         receiverReadyNext = None, startTime = None, senderUnlockedTime = None,
         senderSubmittedTime = None, receiverSawMessageTime = None,
         receiverUnlockedTime = None, receiverSubmittedTime = None,
         senderReactionTimeSeconds = None, receiverReactionTimeSeconds = None,
         senderActiveTimeSeconds = None, receiverActiveTimeSeconds = None\<rparr>]\<rparr>"
proof -
  let ?a = "createSenderReceiverStagePublicData\<lparr>senderId := Some ''u1''\<rparr>"
  have 1: "call sample_config ''s'' (sample_call ''u1'' assign_role no_payload)
             createSenderReceiverStagePublicData = Inr ?a"
    by (simp add: call_def sample_call_def transaction_def on_assign_role_def no_payload_def
        createSenderReceiverStagePublicData_def falsy_def assign_def startGameIfReady_def Let_def)
  have ps: "pairSeed (?a\<lparr>receiverId := Some ''u2''\<rparr>) ''s'' = js_str ''u1-u2-s''"
    by (rule sample_pairSeed) simp_all
  show ?thesis
    unfolding sample_paired_def run_calls.simps 1 stored_after_def sum.case
    by (simp add: call_def sample_call_def transaction_def on_assign_role_def no_payload_def
        createSenderReceiverStagePublicData_def falsy_def assign_def startGameIfReady_def Let_def
        put_round_def createNewRound_def sample_roundDefaults_Suc
        ps [unfolded createSenderReceiverStagePublicData_def, simplified])
qed

lemma sample_deciding_eq:
  "sample_deciding =
     \<lparr>senderId = Some ''u1'', receiverId = Some ''u2'', currentRound = 1,
      roundMap = [1 \<mapsto>
        \<lparr>roundNumber = 1, trueState = 2, status = WAITING_SENDER_DECIDE,
         senderReadyStart = Some True, receiverReadyStart = Some True,
         senderChoice = Undefined, senderLabel = Null, senderMessage = None,
         receiverChoice = None, defaultSenderChoice = Undefined,
         defaultSenderLabel = Null, defaultReceiverChoice = None,
         senderTimedOut = False, receiverTimedOut = False, senderPayoff = None,
         receiverPayoff = None, senderReadyNext = None, receiverReadyNext = None,
         startTime = Some 1000, senderUnlockedTime = Some 1000,
         senderSubmittedTime = None, receiverSawMessageTime = None,
         receiverUnlockedTime = None, receiverSubmittedTime = None,
         senderReactionTimeSeconds = None, receiverReactionTimeSeconds = None,
         senderActiveTimeSeconds = None, receiverActiveTimeSeconds = None\<rparr>]\<rparr>"
  unfolding sample_deciding_def sample_paired_eq
  by (simp add: call_def sample_call_def transaction_def no_payload_def Let_def put_round_def
        stored_after_def truthy_def sample_pairSeed sample_roundDefaults_Suc sample_roundDefaults
        on_start_game_def)

lemma sample_config_fields:
  "enableBalancedDefaults sample_config" "requireParticipantClick sample_config"
  "numRounds sample_config = 2"
  "payoffSenderChoiceA sample_config = 30" "payoffReceiverChoiceA sample_config = 20"
  "payoffSenderChoiceB1 sample_config = 0" "payoffReceiverChoiceB1 sample_config = 36"
  "payoffSenderChoiceB2 sample_config = 20" "payoffReceiverChoiceB2 sample_config = 4"
  by (simp_all add: sample_config_def createSenderReceiverStage_def)

lemma sample_receiving_eq:
  "sample_receiving =
     \<lparr>senderId = Some ''u1'', receiverId = Some ''u2'', currentRound = 1,
      roundMap = [1 \<mapsto>
        \<lparr>roundNumber = 1, trueState = 2, status = WAITING_RECEIVER_DECIDE,
         senderReadyStart = Some True, receiverReadyStart = Some True,
         senderChoice = Val B, senderLabel = Null, senderMessage = None,
         receiverChoice = None, defaultSenderChoice = Val B, defaultSenderLabel = Null,
         defaultReceiverChoice = None, senderTimedOut = False, receiverTimedOut = False,
         senderPayoff = None, receiverPayoff = None, senderReadyNext = None,
         receiverReadyNext = None, startTime = Some 1000,
         senderUnlockedTime = Some 1000, senderSubmittedTime = Some 1000,
         receiverSawMessageTime = None, receiverUnlockedTime = Some 1000,
         receiverSubmittedTime = None, senderReactionTimeSeconds = Some 0,
         receiverReactionTimeSeconds = None, senderActiveTimeSeconds = None,
         receiverActiveTimeSeconds = None\<rparr>]\<rparr>"
  unfolding sample_receiving_def sample_deciding_eq
  by (simp add: call_def sample_call_def transaction_def no_payload_def Let_def put_round_def
        stored_after_def truthy_def sample_pairSeed sample_roundDefaults_Suc sample_roundDefaults
        on_sender_signal_def sample_config_fields)

lemma sample_feedback_eq:
  "sample_feedback =
     \<lparr>senderId = Some ''u1'', receiverId = Some ''u2'', currentRound = 1,
      roundMap = [1 \<mapsto>
        \<lparr>roundNumber = 1, trueState = 2, status = SHOW_FEEDBACK,
         senderReadyStart = Some True, receiverReadyStart = Some True,
         senderChoice = Val B, senderLabel = Null, senderMessage = None,
         receiverChoice = Some B, defaultSenderChoice = Val B,
         defaultSenderLabel = Null, defaultReceiverChoice = Some B,
         senderTimedOut = False, receiverTimedOut = False, senderPayoff = Some 20,
         receiverPayoff = Some 4, senderReadyNext = None, receiverReadyNext = None,
         startTime = Some 1000, senderUnlockedTime = Some 1000,
         senderSubmittedTime = Some 1000, receiverSawMessageTime = None,
         receiverUnlockedTime = Some 1000, receiverSubmittedTime = Some 1000,
         senderReactionTimeSeconds = Some 0, receiverReactionTimeSeconds = Some 0,
         senderActiveTimeSeconds = None, receiverActiveTimeSeconds = None\<rparr>]\<rparr>"
  unfolding sample_feedback_def sample_receiving_eq
  by (simp add: call_def sample_call_def transaction_def no_payload_def Let_def put_round_def
        stored_after_def truthy_def sample_pairSeed sample_roundDefaults_Suc sample_roundDefaults
        on_receiver_choice_def receiver_choice_payoffs_def sample_config_fields)

lemma sample_reachable:
  "reachable sample_config ''s'' sample_paired"
  "reachable sample_config ''s'' sample_deciding"
  "reachable sample_config ''s'' sample_receiving"
  "reachable sample_config ''s'' sample_feedback"
proof -
  show 1: "reachable sample_config ''s'' sample_paired"
    unfolding sample_paired_def by (intro reachable_run_calls reachable_init)
  show 2: "reachable sample_config ''s'' sample_deciding"
    unfolding sample_deciding_def by (intro reachable_run_calls 1)
  show 3: "reachable sample_config ''s'' sample_receiving"
    unfolding sample_receiving_def by (intro reachable_run_calls 2)
  show "reachable sample_config ''s'' sample_feedback"
    unfolding sample_feedback_def by (intro reachable_run_calls 3)
qed

section \<open>A missing choice\<close>

lemma transaction_round:
  assumes "act \<noteq> assign_role" and "roundMap cur (currentRound cur) = Some rd"
  shows "transaction config stageId snapshot now userId act payload cur =
     (if senderId cur \<noteq> Some userId \<and> receiverId cur \<noteq> Some userId
      then Inl (HttpsError permission_denied ''User is not a player in this game'')
      else case act of
          start_game \<Rightarrow> on_start_game now (senderId cur = Some userId) (receiverId cur = Some userId)
                          cur (currentRound cur) rd
        | sender_signal \<Rightarrow> on_sender_signal config stageId now (senderId cur = Some userId) payload
                             cur (currentRound cur) rd
        | receiver_saw_message \<Rightarrow> on_receiver_saw_message now (receiverId cur = Some userId)
                                    cur (currentRound cur) rd
        | receiver_choice \<Rightarrow> on_receiver_choice config stageId now (receiverId cur = Some userId)
                               payload cur (currentRound cur) rd
        | next_round \<Rightarrow> on_next_round config stageId now userId cur (currentRound cur) rd
        | assign_role \<Rightarrow> Inr cur)"
  using assms by (simp add: transaction_def Let_def)

lemma invalid_argument_only_receiver_choice:
  assumes "act \<noteq> receiver_choice"
  shows "transaction config stageId snapshot now userId act payload cur
           \<noteq> Inl (HttpsError invalid_argument m)"
proof (cases "act = assign_role")
  case True
  have "assign cur config stageId now userId r \<noteq> Inl (HttpsError invalid_argument m)" for r
    by (auto simp: assign_def startGameIfReady_def createNewRound_def roundDefaults_def Let_def
        split: sum.splits option.splits if_splits)
  then show ?thesis using True
    by (auto simp: transaction_def on_assign_role_def Let_def split: option.splits if_splits)
next
  case False
  show ?thesis
  proof (cases "roundMap cur (currentRound cur)")
    case None
    then show ?thesis using False by (simp add: transaction_def Let_def)
  next
    case (Some rd)
    show ?thesis
      unfolding transaction_round [OF False Some] using assms False
      by (cases act)
         (auto simp: on_start_game_def on_sender_signal_def on_receiver_saw_message_def
            on_next_round_def roundDefaults_def Let_def
          split: sum.splits option.splits if_splits prod.splits)
  qed
qed

text \<open>
  Claim C10. For every reachable instance whose current round has status
  \<open>WAITING_SENDER_DECIDE\<close>, a \<open>sender_signal\<close> call from the Sender whose payload carries
  no \<open>senderChoice\<close> succeeds: it records \<open>senderChoice\<close> as \<open>null\<close> and moves the round
  to \<open>WAITING_RECEIVER_DECIDE\<close>. A \<open>receiver_choice\<close> without choice is rejected with
  \<open>invalid-argument\<close>, and no other action ever is.
\<close>

theorem sender_signal_without_choice:
  assumes "reachable config stageId cur"
    and "roundMap cur (currentRound cur) = Some rd"
  shows "(status rd = WAITING_SENDER_DECIDE \<and> senderId cur = Some userId \<and>
            pl_senderChoice payload = None \<longrightarrow>
            (\<exists>cur' rd'.
               transaction config stageId snapshot now userId sender_signal payload cur = Inr cur' \<and>
               roundMap cur' (currentRound cur) = Some rd' \<and>
               senderChoice rd' = Null \<and> status rd' = WAITING_RECEIVER_DECIDE)) \<and>
         (status rd = WAITING_RECEIVER_DECIDE \<and> receiverId cur = Some userId \<and>
            pl_receiverChoice payload = None \<longrightarrow>
            transaction config stageId snapshot now userId receiver_choice payload cur
              = Inl (HttpsError invalid_argument ''Missing choice'')) \<and>
         (act \<noteq> receiver_choice \<longrightarrow>
            transaction config stageId snapshot now userId act payload cur
              \<noteq> Inl (HttpsError invalid_argument m))"
proof -
  have i: "doc_inv config stageId cur" using assms(1) by (rule reachable_inv)
  then obtain d where d: "roundDefaults (currentRound cur) config (pairSeed cur stageId) = Inr d"
    using assms(2) unfolding doc_inv_def inv_rounds_def by blast
  have 1: "\<exists>cur' rd'.
             transaction config stageId snapshot now userId sender_signal payload cur = Inr cur' \<and>
             roundMap cur' (currentRound cur) = Some rd' \<and>
             senderChoice rd' = Null \<and> status rd' = WAITING_RECEIVER_DECIDE"
    if "status rd = WAITING_SENDER_DECIDE" "senderId cur = Some userId" "pl_senderChoice payload = None"
    unfolding transaction_round [OF _ assms(2), of sender_signal, simplified]
    using that d by (simp add: on_sender_signal_def Let_def)
  have 2: "transaction config stageId snapshot now userId receiver_choice payload cur
             = Inl (HttpsError invalid_argument ''Missing choice'')"
    if "status rd = WAITING_RECEIVER_DECIDE" "receiverId cur = Some userId"
      "pl_receiverChoice payload = None"
    unfolding transaction_round [OF _ assms(2), of receiver_choice, simplified]
    using that by (simp add: on_receiver_choice_def)
  show ?thesis using 1 2 invalid_argument_only_receiver_choice by blast
qed

text \<open>In the sample game the sender may signal without a choice once both have started.\<close>

theorem sender_signal_without_choice_witness:
  "reachable sample_config ''s'' sample_deciding \<and>
   status (the (roundMap sample_deciding (currentRound sample_deciding))) = WAITING_SENDER_DECIDE \<and>
   senderId sample_deciding = Some ''u1'' \<and> pl_senderChoice no_payload = None \<and>
   (\<exists>cur' rd'.
      transaction sample_config ''s'' [] 1000 ''u1'' sender_signal no_payload sample_deciding = Inr cur' \<and>
      roundMap cur' (currentRound sample_deciding) = Some rd' \<and>
      senderChoice rd' = Null \<and> status rd' = WAITING_RECEIVER_DECIDE)"
proof -
  have r: "roundMap sample_deciding (currentRound sample_deciding)
             = Some (the (roundMap sample_deciding (currentRound sample_deciding)))"
    by (simp add: sample_deciding_eq)
  have h: "status (the (roundMap sample_deciding (currentRound sample_deciding))) = WAITING_SENDER_DECIDE"
    "senderId sample_deciding = Some ''u1''" "pl_senderChoice no_payload = None"
    by (simp_all add: sample_deciding_eq no_payload_def)
  show ?thesis
    using sender_signal_without_choice [OF sample_reachable(2) r, of "''u1''" no_payload "[]" 1000]
      h sample_reachable(2) by blast
qed

section \<open>Pairing creates round 1\<close>

lemma transaction_assign_role:
  "transaction config stageId snapshot now userId assign_role payload cur
     = on_assign_role config stageId snapshot now userId payload cur"
  by (simp add: transaction_def)

lemma valid_config_defaults:
  assumes "1 \<le> numRounds config" "0 \<le> probability config" "probability config \<le> 1"
  shows "\<exists>d. roundDefaults 1 config seed = Inr d"
proof -
  obtain rs where "generateBalancedDefaults (numRounds config) (probability config) seed = Inr rs"
    using generate_core [OF assms(2,3), of "numRounds config" seed] by blast
  then show ?thesis using assms(1) roundDefaults_iff [of 1 config seed] by blast
qed

text \<open>
  Claim C9. For every \<open>assign_role\<close> call on a reachable instance that succeeds and leaves
  both \<open>senderId\<close> and \<open>receiverId\<close> non-null, if \<open>roundMap[1]\<close> does not yet exist then
  the same transaction creates round 1 with status \<open>WAITING_BOTH_START\<close> and sets
  \<open>currentRound\<close> to 1. Two \<open>assign_role\<close> calls of two participants with no requested
  role and no history, on the empty instance of a stage with at least one round and a
  probability between 0 and 1, make the first caller Sender and the second Receiver;
  round 1 is created by the second call and is then the only round.
\<close>

theorem assign_role_creates_first_round:
  "(reachable config stageId cur \<and> userId \<noteq> [] \<and>
      transaction config stageId snapshot now userId assign_role payload cur = Inr cur' \<and>
      senderId cur' \<noteq> None \<and> receiverId cur' \<noteq> None \<and> roundMap cur 1 = None \<longrightarrow>
      (\<exists>r1. roundMap cur' 1 = Some r1 \<and> status r1 = WAITING_BOTH_START) \<and> currentRound cur' = 1) \<and>
   (u1 \<noteq> [] \<and> u2 \<noteq> [] \<and> u1 \<noteq> u2 \<and>
      pl_requestedRole p1 = None \<and> pl_requestedRole p2 = None \<and>
      historicalRole stageId u1 snapshot1 None = None \<and>
      historicalRole stageId u2 snapshot2 None = None \<and>
      1 \<le> numRounds config \<and> 0 \<le> probability config \<and> probability config \<le> 1 \<longrightarrow>
      (\<exists>c1 c2 r1.
         transaction config stageId snapshot1 now1 u1 assign_role p1
           createSenderReceiverStagePublicData = Inr c1 \<and>
         roundMap c1 = Map.empty \<and>
         transaction config stageId snapshot2 now2 u2 assign_role p2 c1 = Inr c2 \<and>
         senderId c2 = Some u1 \<and> receiverId c2 = Some u2 \<and>
         roundMap c2 = [1 \<mapsto> r1] \<and> status r1 = WAITING_BOTH_START \<and> currentRound c2 = 1))"
proof (rule conjI; rule impI)
  assume a: "reachable config stageId cur \<and> userId \<noteq> [] \<and>
      transaction config stageId snapshot now userId assign_role payload cur = Inr cur' \<and>
      senderId cur' \<noteq> None \<and> receiverId cur' \<noteq> None \<and> roundMap cur 1 = None"
  then have t: "on_assign_role config stageId snapshot now userId payload cur = Inr cur'"
    by (simp add: transaction_assign_role)
  have i: "doc_inv config stageId cur" using a reachable_inv by blast
  have i': "doc_inv config stageId cur'" using inv_assign_role [OF i _ t] a by blast
  then have ex: "roundMap cur' 1 \<noteq> None" using a by (simp add: doc_inv_def inv_first_def)
  then have ne: "cur' \<noteq> cur" using a by auto
  then obtain r where r: "assign cur config stageId now userId r = Inr cur'"
    using effect_assign_role [OF t] by blast
  define sim where "sim = (case r of sender \<Rightarrow> cur\<lparr>senderId := Some userId\<rparr>
                                   | receiver \<Rightarrow> cur\<lparr>receiverId := Some userId\<rparr>)"
  have rm: "roundMap sim 1 = None" using a by (cases r) (simp_all add: sim_def)
  obtain fr where fr: "createNewRound 1 config (pairSeed sim stageId) True now = Inr fr"
    "cur' = (put_round sim 1 fr)\<lparr>currentRound := 1\<rparr>"
    using effect_assign [OF r] ex rm unfolding sim_def [symmetric] by auto
  have "status fr = WAITING_BOTH_START" using createNewRound_props(2) [OF fr(1)] by simp
  then show "(\<exists>r1. roundMap cur' 1 = Some r1 \<and> status r1 = WAITING_BOTH_START) \<and> currentRound cur' = 1"
    by (simp add: fr(2))
next
  assume a: "u1 \<noteq> [] \<and> u2 \<noteq> [] \<and> u1 \<noteq> u2 \<and>
      pl_requestedRole p1 = None \<and> pl_requestedRole p2 = None \<and>
      historicalRole stageId u1 snapshot1 None = None \<and>
      historicalRole stageId u2 snapshot2 None = None \<and>
      1 \<le> numRounds config \<and> 0 \<le> probability config \<and> probability config \<le> 1"
  let ?init = "createSenderReceiverStagePublicData"
  let ?c1 = "?init\<lparr>senderId := Some u1\<rparr>"
  let ?sim = "?c1\<lparr>receiverId := Some u2\<rparr>"
  obtain d where d: "roundDefaults 1 config (pairSeed ?sim stageId) = Inr d"
    using valid_config_defaults a by blast
  then obtain fr where fr: "createNewRound 1 config (pairSeed ?sim stageId) True now2 = Inr fr"
    by (simp add: createNewRound_def)
  have st: "status fr = WAITING_BOTH_START" using createNewRound_props(2) [OF fr] by simp
  let ?c2 = "(put_round ?sim 1 fr)\<lparr>currentRound := 1\<rparr>"
  have 1: "transaction config stageId snapshot1 now1 u1 assign_role p1 ?init = Inr ?c1"
    using a
    by (simp add: transaction_assign_role on_assign_role_def Let_def assign_def
        startGameIfReady_def createSenderReceiverStagePublicData_def falsy_def)
  have 2: "transaction config stageId snapshot2 now2 u2 assign_role p2 ?c1 = Inr ?c2"
    using a fr
    by (simp add: transaction_assign_role on_assign_role_def Let_def assign_def
        startGameIfReady_def createSenderReceiverStagePublicData_def falsy_def)
  have "roundMap ?c1 = Map.empty" by (simp add: createSenderReceiverStagePublicData_def)
  moreover have "senderId ?c2 = Some u1" "receiverId ?c2 = Some u2" "currentRound ?c2 = 1"
    by simp_all
  moreover have "roundMap ?c2 = [1 \<mapsto> fr]" by (simp add: createSenderReceiverStagePublicData_def)
  ultimately show "\<exists>c1 c2 r1.
         transaction config stageId snapshot1 now1 u1 assign_role p1
           createSenderReceiverStagePublicData = Inr c1 \<and>
         roundMap c1 = Map.empty \<and>
         transaction config stageId snapshot2 now2 u2 assign_role p2 c1 = Inr c2 \<and>
         senderId c2 = Some u1 \<and> receiverId c2 = Some u2 \<and>
         roundMap c2 = [1 \<mapsto> r1] \<and> status r1 = WAITING_BOTH_START \<and> currentRound c2 = 1"
    using 1 2 st by blast
qed

section \<open>Advancing to the next round\<close>

lemma next_round_noop:
  assumes "roundMap c (currentRound c) = None \<or>
           (\<exists>rd. roundMap c (currentRound c) = Some rd \<and> status rd \<noteq> SHOW_FEEDBACK)"
  shows "stored_after c (transaction config stageId snapshot now u next_round payload c) = c"
  using assms
  by (auto simp: stored_after_def transaction_def Let_def on_next_round_def split: sum.splits)

lemma next_round_result:
  assumes rd: "roundMap cur (currentRound cur) = Some rd" and sf: "status rd = SHOW_FEEDBACK"
    and pl: "senderId cur = Some u \<or> receiverId cur = Some u"
    and nonext: "roundMap cur (currentRound cur + 1) = None"
    and d: "currentRound cur + 1 \<le> numRounds config \<longrightarrow>
            roundDefaults (currentRound cur + 1) config (pairSeed cur stageId) = Inr d"
  defines "r1 \<equiv> (if senderId cur = Some u then rd\<lparr>senderReadyNext := Some True\<rparr>
                  else rd\<lparr>receiverReadyNext := Some True\<rparr>)"
  defines "adv \<equiv> (if senderId cur = Some u then truthy (receiverReadyNext rd)
                   else truthy (senderReadyNext rd))"
  shows "transaction config stageId snapshot now u next_round payload cur =
     Inr (if \<not> adv then put_round cur (currentRound cur) r1
          else if numRounds config < currentRound cur + 1
          then (put_round cur (currentRound cur) r1)\<lparr>currentRound := currentRound cur + 1\<rparr>
          else (put_round (put_round cur (currentRound cur) r1) (currentRound cur + 1)
                  (newRoundData (currentRound cur + 1) (d_trueState d) now))
               \<lparr>currentRound := currentRound cur + 1\<rparr>)"
proof (cases "adv \<and> \<not> numRounds config < currentRound cur + 1")
  case True
  then have "roundDefaults (currentRound cur + 1) config (pairSeed cur stageId) = Inr d"
    using d by simp
  then show ?thesis
    unfolding transaction_round [OF _ rd, of next_round, simplified]
    using True pl sf nonext unfolding r1_def adv_def
    by (auto simp: on_next_round_def Let_def)
next
  case False
  then show ?thesis
    unfolding transaction_round [OF _ rd, of next_round, simplified]
    using pl sf nonext unfolding r1_def adv_def
    by (auto simp: on_next_round_def Let_def)
qed

lemma next_round_pair:
  fixes snapshotA snapshotB snapshotC :: "StageDoc list" and nowA nowB nowC :: timestamp
    and payloadA payloadB payloadC :: Payload and third :: string
  assumes reach: "reachable config stageId cur"
    and rd: "roundMap cur (currentRound cur) = Some rd" and sf: "status rd = SHOW_FEEDBACK"
    and s: "senderId cur = Some s" and r: "receiverId cur = Some r"
    and order: "(first = s \<and> second = r) \<or> (first = r \<and> second = s)"
  defines "c1 \<equiv> stored_after cur
                   (transaction config stageId snapshotA nowA first next_round payloadA cur)"
  defines "c2 \<equiv> stored_after c1
                   (transaction config stageId snapshotB nowB second next_round payloadB c1)"
  defines "c3 \<equiv> stored_after c2
                   (transaction config stageId snapshotC nowC third next_round payloadC c2)"
  shows "currentRound c2 = currentRound cur + 1 \<and> c3 = c2 \<and>
         (\<not> truthy (senderReadyNext rd) \<and> \<not> truthy (receiverReadyNext rd) \<longrightarrow>
            c1 = put_round cur (currentRound cur)
                   (if first = s then rd\<lparr>senderReadyNext := Some True\<rparr>
                    else rd\<lparr>receiverReadyNext := Some True\<rparr>)) \<and>
         (numRounds config < currentRound cur + 1 \<longrightarrow> dom (roundMap c2) = dom (roundMap cur)) \<and>
         (currentRound cur + 1 \<le> numRounds config \<longrightarrow>
            (\<exists>nr. roundMap c2 (currentRound cur + 1) = Some nr \<and>
               status nr = WAITING_SENDER_DECIDE))"
proof -
  let ?idx = "currentRound cur"
  have i: "doc_inv config stageId cur" using reach by (rule reachable_inv)
  have ne: "s \<noteq> r" using i s r by (auto simp: doc_inv_def inv_ids_def)
  have nonext: "roundMap cur (?idx + 1) = None"
    using i unfolding doc_inv_def inv_rounds_def by (cases "roundMap cur (?idx + 1)") auto
  obtain d0 where d0: "roundDefaults ?idx config (pairSeed cur stageId) = Inr d0"
    using i rd unfolding doc_inv_def inv_rounds_def by blast
  obtain d where d: "?idx + 1 \<le> numRounds config \<longrightarrow>
      roundDefaults (?idx + 1) config (pairSeed cur stageId) = Inr d"
    using roundDefaults_other [OF d0, of "?idx + 1"] by (cases "?idx + 1 \<le> numRounds config") auto
  have notboth: "\<not> (truthy (senderReadyNext rd) \<and> truthy (receiverReadyNext rd))"
    using i rd unfolding doc_inv_def inv_flags_def by blast
  define r1 where "r1 = (if first = s then rd\<lparr>senderReadyNext := Some True\<rparr>
                         else rd\<lparr>receiverReadyNext := Some True\<rparr>)"
  define adv1 where "adv1 = (if first = s then truthy (receiverReadyNext rd)
                             else truthy (senderReadyNext rd))"
  define cur1 where "cur1 = put_round cur ?idx r1"
  define fin where "fin = (\<lambda>base now.
      if numRounds config < ?idx + 1 then base\<lparr>currentRound := ?idx + 1\<rparr>
      else (put_round base (?idx + 1) (newRoundData (?idx + 1) (d_trueState d) now))
             \<lparr>currentRound := ?idx + 1\<rparr>)"
  have fs: "senderId cur = Some first \<longleftrightarrow> first = s" using s by auto
  have pl1: "senderId cur = Some first \<or> receiverId cur = Some first" using order s r by auto
  have c1: "c1 = (if \<not> adv1 then cur1 else fin cur1 nowA)"
    unfolding c1_def next_round_result [OF rd sf pl1 nonext d] fs
    by (simp add: stored_after_def r1_def adv1_def cur1_def fin_def)
  \<comment> \<open>what an advanced document looks like\<close>
  have fin_props: "currentRound (fin base now) = ?idx + 1 \<and>
      (numRounds config < ?idx + 1 \<longrightarrow> dom (roundMap (fin base now)) = dom (roundMap base)) \<and>
      (?idx + 1 \<le> numRounds config \<longrightarrow>
         (\<exists>nr. roundMap (fin base now) (?idx + 1) = Some nr \<and> status nr = WAITING_SENDER_DECIDE)) \<and>
      (roundMap base (?idx + 1) = None \<longrightarrow>
         roundMap (fin base now) (currentRound (fin base now)) = None \<or>
         (\<exists>x. roundMap (fin base now) (currentRound (fin base now)) = Some x \<and>
              status x \<noteq> SHOW_FEEDBACK))" for base now
    by (auto simp: fin_def)
  have noop: "stored_after (fin base now) (transaction config stageId sn nw u next_round pl (fin base now))
                = fin base now" if "roundMap base (?idx + 1) = None" for base now sn nw u pl
    using next_round_noop fin_props that by blast
  have dom1: "dom (roundMap cur1) = dom (roundMap cur)"
    using rd by (auto simp: cur1_def)
  have nonext1: "roundMap cur1 (?idx + 1) = None" using nonext by (simp add: cur1_def)
  show ?thesis
  proof (cases adv1)
    case True
    then have e1: "c1 = fin cur1 nowA" using c1 by simp
    have e2: "c2 = fin cur1 nowA" unfolding c2_def e1 by (rule noop [OF nonext1])
    have e3: "c3 = fin cur1 nowA" unfolding c3_def e2 by (rule noop [OF nonext1])
    have "\<not> (\<not> truthy (senderReadyNext rd) \<and> \<not> truthy (receiverReadyNext rd))"
      using True by (auto simp: adv1_def split: if_splits)
    then show ?thesis using fin_props [of cur1 nowA] dom1 unfolding e2 e3 by auto
  next
    case False
    then have e1: "c1 = cur1" using c1 by simp
    have rd1: "roundMap cur1 (currentRound cur1) = Some r1" by (simp add: cur1_def)
    have sf1: "status r1 = SHOW_FEEDBACK" using sf by (simp add: r1_def)
    have pl2: "senderId cur1 = Some second \<or> receiverId cur1 = Some second"
      using order s r by (auto simp: cur1_def)
    have nonext1': "roundMap cur1 (currentRound cur1 + 1) = None"
      using nonext by (simp add: cur1_def)
    have ps: "pairSeed cur1 stageId = pairSeed cur stageId"
      by (rule pairSeed_cong) (simp_all add: cur1_def)
    have d1: "currentRound cur1 + 1 \<le> numRounds config \<longrightarrow>
        roundDefaults (currentRound cur1 + 1) config (pairSeed cur1 stageId) = Inr d"
      using d unfolding ps by (simp add: cur1_def)
    have adv2: "(if senderId cur1 = Some second then truthy (receiverReadyNext r1)
                 else truthy (senderReadyNext r1))"
      using order s r ne by (auto simp: cur1_def r1_def truthy_def)
    define r2 where "r2 = (if senderId cur1 = Some second then r1\<lparr>senderReadyNext := Some True\<rparr>
                           else r1\<lparr>receiverReadyNext := Some True\<rparr>)"
    define cur2 where "cur2 = put_round cur1 ?idx r2"
    have e2: "c2 = fin cur2 nowB"
      unfolding c2_def e1 next_round_result [OF rd1 sf1 pl2 nonext1' d1]
      using adv2 by (simp add: stored_after_def fin_def cur2_def r2_def cur1_def)
    have nonext2: "roundMap cur2 (?idx + 1) = None" using nonext1 by (simp add: cur2_def)
    have e3: "c3 = fin cur2 nowB" unfolding c3_def e2 by (rule noop [OF nonext2])
    have dom2: "dom (roundMap cur2) = dom (roundMap cur)"
      using dom1 rd by (auto simp: cur2_def cur1_def)
    show ?thesis using fin_props [of cur2 nowB] dom2 e1 unfolding e2 e3
      by (auto simp: cur1_def r1_def)
  qed
qed

text \<open>
  Claim C1. For every reachable instance whose current round has status \<open>SHOW_FEEDBACK\<close>,
  the \<open>next_round\<close> calls of the two participants, in either order, advance
  \<open>currentRound\<close> by exactly one in total; when neither \<open>readyNext\<close> flag is set
  beforehand the first call only sets the caller's flag and the second advances; a third
  \<open>next_round\<close> call after the advancement leaves the instance unchanged; and when the
  incremented \<open>currentRound\<close> exceeds \<open>numRounds\<close>, \<open>currentRound\<close> is still incremented
  but no round is created, whereas otherwise the new round is there and waits for the
  sender.
\<close>

theorem next_round_advances_exactly_once:
  fixes snapshotA snapshotB snapshotC :: "StageDoc list" and nowA nowB nowC :: timestamp
    and payloadA payloadB payloadC :: Payload and third :: string
  assumes "reachable config stageId cur"
    and "roundMap cur (currentRound cur) = Some rd" and "status rd = SHOW_FEEDBACK"
    and "senderId cur = Some s" and "receiverId cur = Some r"
  shows
    "(let c1 = stored_after cur
                 (transaction config stageId snapshotA nowA s next_round payloadA cur);
          c2 = stored_after c1
                 (transaction config stageId snapshotB nowB r next_round payloadB c1);
          c3 = stored_after c2
                 (transaction config stageId snapshotC nowC third next_round payloadC c2)
      in currentRound c2 = currentRound cur + 1 \<and> c3 = c2 \<and>
         (\<not> truthy (senderReadyNext rd) \<and> \<not> truthy (receiverReadyNext rd) \<longrightarrow>
            c1 = put_round cur (currentRound cur) (rd\<lparr>senderReadyNext := Some True\<rparr>)) \<and>
         (numRounds config < currentRound cur + 1 \<longrightarrow> dom (roundMap c2) = dom (roundMap cur)) \<and>
         (currentRound cur + 1 \<le> numRounds config \<longrightarrow>
            (\<exists>nr. roundMap c2 (currentRound cur + 1) = Some nr \<and>
               status nr = WAITING_SENDER_DECIDE))) \<and>
     (let c1 = stored_after cur
                 (transaction config stageId snapshotA nowA r next_round payloadA cur);
          c2 = stored_after c1
                 (transaction config stageId snapshotB nowB s next_round payloadB c1);
          c3 = stored_after c2
                 (transaction config stageId snapshotC nowC third next_round payloadC c2)
      in currentRound c2 = currentRound cur + 1 \<and> c3 = c2 \<and>
         (\<not> truthy (senderReadyNext rd) \<and> \<not> truthy (receiverReadyNext rd) \<longrightarrow>
            c1 = put_round cur (currentRound cur) (rd\<lparr>receiverReadyNext := Some True\<rparr>)) \<and>
         (numRounds config < currentRound cur + 1 \<longrightarrow> dom (roundMap c2) = dom (roundMap cur)) \<and>
         (currentRound cur + 1 \<le> numRounds config \<longrightarrow>
            (\<exists>nr. roundMap c2 (currentRound cur + 1) = Some nr \<and>
               status nr = WAITING_SENDER_DECIDE)))"
proof -
  have "doc_inv config stageId cur" using assms(1) by (rule reachable_inv)
  then have ne: "r \<noteq> s" using assms(4,5) by (auto simp: doc_inv_def inv_ids_def)
  have a: "(s = s \<and> r = r) \<or> (s = r \<and> r = s)" by simp
  have b: "(r = s \<and> s = r) \<or> (r = r \<and> s = s)" by simp
  show ?thesis
    unfolding Let_def
    using next_round_pair [OF assms a, where snapshotA = snapshotA and nowA = nowA
        and payloadA = payloadA and snapshotB = snapshotB and nowB = nowB and payloadB = payloadB
        and snapshotC = snapshotC and nowC = nowC and payloadC = payloadC and third = third]
      next_round_pair [OF assms b, where snapshotA = snapshotA and nowA = nowA
        and payloadA = payloadA and snapshotB = snapshotB and nowB = nowB and payloadB = payloadB
        and snapshotC = snapshotC and nowC = nowC and payloadC = payloadC and third = third] ne
    by simp
qed

section \<open>Calls that do not fit the state\<close>



section \<open>The two payoffs of a round\<close>

lemma paired_put:
  assumes "payoffs_paired cur" "senderPayoff r' = None \<longleftrightarrow> receiverPayoff r' = None"
  shows "payoffs_paired (put_round cur n r')"
  using assms by (auto simp: payoffs_paired_def)

lemma paired_current: "payoffs_paired cur \<Longrightarrow> payoffs_paired (cur\<lparr>currentRound := k\<rparr>)"
  by (simp add: payoffs_paired_def)

lemma paired_round:
  "payoffs_paired cur \<Longrightarrow> roundMap cur n = Some r
   \<Longrightarrow> senderPayoff r = None \<longleftrightarrow> receiverPayoff r = None"
  by (simp add: payoffs_paired_def)

lemma paired_assign:
  assumes "payoffs_paired cur" "assign cur config stageId now userId r = Inr cur'"
  shows "payoffs_paired cur'"
proof -
  define sim where "sim = (case r of sender \<Rightarrow> cur\<lparr>senderId := Some userId\<rparr>
                                   | receiver \<Rightarrow> cur\<lparr>receiverId := Some userId\<rparr>)"
  have p: "payoffs_paired sim" using assms(1) by (cases r) (simp_all add: sim_def payoffs_paired_def)
  have "cur' = sim \<or> (\<exists>fr. createNewRound 1 config (pairSeed sim stageId) True now = Inr fr \<and>
                         cur' = (put_round sim 1 fr)\<lparr>currentRound := 1\<rparr>)"
    using effect_assign [OF assms(2)] unfolding sim_def [symmetric] by blast
  moreover have "senderPayoff fr = None \<and> receiverPayoff fr = None"
    if "createNewRound 1 config (pairSeed sim stageId) True now = Inr fr" for fr
    using that by (auto simp: createNewRound_def split: sum.splits)
  ultimately show ?thesis using p paired_put [OF p] paired_current by auto
qed

lemma paired_transaction:
  assumes p: "payoffs_paired cur"
    and t: "transaction config stageId snapshot now userId act payload cur = Inr cur'"
  shows "payoffs_paired cur'"
proof (cases "act = assign_role")
  case True
  then have "on_assign_role config stageId snapshot now userId payload cur = Inr cur'"
    using t by (simp add: transaction_def)
  then show ?thesis using effect_assign_role paired_assign [OF p] p by blast
next
  case False
  then obtain rd where rd: "roundMap cur (currentRound cur) = Some rd"
    using t by (auto simp: transaction_def Let_def split: if_splits option.splits)
  have q: "senderPayoff rd = None \<longleftrightarrow> receiverPayoff rd = None" using paired_round [OF p rd] .
  have k: "payoffs_paired (put_round cur n r')"
    if "senderPayoff r' = None \<longleftrightarrow> receiverPayoff r' = None" for n r'
    using paired_put [OF p that] .
  show ?thesis
  proof (cases act)
    case assign_role
    then show ?thesis using False by simp
  next
    case start_game
    then show ?thesis
      using t p q k unfolding transaction_round [OF False rd]
      by (auto simp: on_start_game_def Let_def split: if_splits)
  next
    case sender_signal
    then show ?thesis
      using t p q k unfolding transaction_round [OF False rd]
      by (auto simp: on_sender_signal_def Let_def split: if_splits sum.splits)
  next
    case receiver_saw_message
    then show ?thesis
      using t p q k unfolding transaction_round [OF False rd]
      by (auto simp: on_receiver_saw_message_def split: if_splits)
  next
    case receiver_choice
    then show ?thesis
      using t p q k unfolding transaction_round [OF False rd]
      by (auto simp: on_receiver_choice_def Let_def split: if_splits sum.splits option.splits prod.splits)
  next
    case next_round
    have pl: "senderId cur = Some userId \<or> receiverId cur = Some userId"
      using t False by (auto simp: transaction_def Let_def split: if_splits)
    have n: "on_next_round config stageId now userId cur (currentRound cur) rd = Inr cur'"
      using t next_round pl unfolding transaction_round [OF False rd] by auto
    define r1 where "r1 = (if senderId cur = Some userId then rd\<lparr>senderReadyNext := Some True\<rparr>
                           else rd\<lparr>receiverReadyNext := Some True\<rparr>)"
    have p1: "payoffs_paired (put_round cur (currentRound cur) r1)"
      using q by (intro k) (simp add: r1_def)
    have p2: "payoffs_paired (put_round (put_round cur (currentRound cur) r1) m (newRoundData m s nw))"
      for m s nw
      by (rule paired_put [OF p1]) (simp add: newRoundData_def)
    show ?thesis
      using effect_next_round [OF n pl] p p1 p2 paired_current unfolding r1_def [symmetric]
      by auto
  qed
qed

lemma reachable_paired: "reachable config stageId cur \<Longrightarrow> payoffs_paired cur"
proof (induction rule: reachable.induct)
  case reachable_init
  then show ?case by (simp add: payoffs_paired_def createSenderReceiverStagePublicData_def)
next
  case (reachable_call cur c cur')
  then show ?case using paired_transaction by (auto simp: call_def split: if_splits)
qed

lemma sample_timed_out_call:
  "transaction sample_config ''s'' [] 1000 ''u1'' sender_signal
     (no_payload\<lparr>pl_senderChoice := Some A, pl_isTimedOut := Some True\<rparr>) sample_deciding =
   Inr \<lparr>senderId = Some ''u1'', receiverId = Some ''u2'', currentRound = 1,
      roundMap = [1 \<mapsto>
        \<lparr>roundNumber = 1, trueState = 2, status = WAITING_RECEIVER_DECIDE,
         senderReadyStart = Some True, receiverReadyStart = Some True,
         senderChoice = Val A, senderLabel = Null, senderMessage = None,
         receiverChoice = None, defaultSenderChoice = Val B, defaultSenderLabel = Null,
         defaultReceiverChoice = None, senderTimedOut = True, receiverTimedOut = False,
         senderPayoff = Some 0, receiverPayoff = Some 0, senderReadyNext = None,
         receiverReadyNext = None, startTime = Some 1000,
         senderUnlockedTime = Some 1000, senderSubmittedTime = Some 1000,
         receiverSawMessageTime = None, receiverUnlockedTime = Some 1000,
         receiverSubmittedTime = None, senderReactionTimeSeconds = Some 0,
         receiverReactionTimeSeconds = None, senderActiveTimeSeconds = None,
         receiverActiveTimeSeconds = None\<rparr>]\<rparr>"
  unfolding sample_deciding_eq
  by (simp add: call_def sample_call_def transaction_def no_payload_def Let_def put_round_def
        stored_after_def truthy_def sample_pairSeed sample_roundDefaults_Suc sample_roundDefaults
        on_sender_signal_def sample_config_fields)

lemma sample_timed_out_eq:
  "sample_timed_out =
     \<lparr>senderId = Some ''u1'', receiverId = Some ''u2'', currentRound = 1,
      roundMap = [1 \<mapsto>
        \<lparr>roundNumber = 1, trueState = 2, status = WAITING_RECEIVER_DECIDE,
         senderReadyStart = Some True, receiverReadyStart = Some True,
         senderChoice = Val A, senderLabel = Null, senderMessage = None,
         receiverChoice = None, defaultSenderChoice = Val B, defaultSenderLabel = Null,
         defaultReceiverChoice = None, senderTimedOut = True, receiverTimedOut = False,
         senderPayoff = Some 0, receiverPayoff = Some 0, senderReadyNext = None,
         receiverReadyNext = None, startTime = Some 1000,
         senderUnlockedTime = Some 1000, senderSubmittedTime = Some 1000,
         receiverSawMessageTime = None, receiverUnlockedTime = Some 1000,
         receiverSubmittedTime = None, senderReactionTimeSeconds = Some 0,
         receiverReactionTimeSeconds = None, senderActiveTimeSeconds = None,
         receiverActiveTimeSeconds = None\<rparr>]\<rparr>"
  unfolding sample_timed_out_def run_calls.simps call_def
  using sample_timed_out_call by (simp add: sample_call_def stored_after_def)

lemma sample_overwritten_call:
  "transaction sample_config ''s'' [] 1000 ''u2'' receiver_choice
     (no_payload\<lparr>pl_receiverChoice := Some A\<rparr>) sample_timed_out =
   Inr \<lparr>senderId = Some ''u1'', receiverId = Some ''u2'', currentRound = 1,
      roundMap = [1 \<mapsto>
        \<lparr>roundNumber = 1, trueState = 2, status = SHOW_FEEDBACK,
         senderReadyStart = Some True, receiverReadyStart = Some True,
         senderChoice = Val A, senderLabel = Null, senderMessage = None,
         receiverChoice = Some A, defaultSenderChoice = Val B,
         defaultSenderLabel = Null, defaultReceiverChoice = Some B,
         senderTimedOut = True, receiverTimedOut = False, senderPayoff = Some 30,
         receiverPayoff = Some 20, senderReadyNext = None, receiverReadyNext = None,
         startTime = Some 1000, senderUnlockedTime = Some 1000,
         senderSubmittedTime = Some 1000, receiverSawMessageTime = None,
         receiverUnlockedTime = Some 1000, receiverSubmittedTime = Some 1000,
         senderReactionTimeSeconds = Some 0, receiverReactionTimeSeconds = Some 0,
         senderActiveTimeSeconds = None, receiverActiveTimeSeconds = None\<rparr>]\<rparr>"
  unfolding sample_timed_out_eq
  by (simp add: call_def sample_call_def transaction_def no_payload_def Let_def put_round_def
        stored_after_def truthy_def sample_pairSeed sample_roundDefaults_Suc sample_roundDefaults
        on_receiver_choice_def receiver_choice_payoffs_def sample_config_fields)

lemma sample_overwritten_eq:
  "sample_overwritten =
     \<lparr>senderId = Some ''u1'', receiverId = Some ''u2'', currentRound = 1,
      roundMap = [1 \<mapsto>
        \<lparr>roundNumber = 1, trueState = 2, status = SHOW_FEEDBACK,
         senderReadyStart = Some True, receiverReadyStart = Some True,
         senderChoice = Val A, senderLabel = Null, senderMessage = None,
         receiverChoice = Some A, defaultSenderChoice = Val B,
         defaultSenderLabel = Null, defaultReceiverChoice = Some B,
         senderTimedOut = True, receiverTimedOut = False, senderPayoff = Some 30,
         receiverPayoff = Some 20, senderReadyNext = None, receiverReadyNext = None,
         startTime = Some 1000, senderUnlockedTime = Some 1000,
         senderSubmittedTime = Some 1000, receiverSawMessageTime = None,
         receiverUnlockedTime = Some 1000, receiverSubmittedTime = Some 1000,
         senderReactionTimeSeconds = Some 0, receiverReactionTimeSeconds = Some 0,
         senderActiveTimeSeconds = None, receiverActiveTimeSeconds = None\<rparr>]\<rparr>"
  unfolding sample_overwritten_def run_calls.simps call_def
  using sample_overwritten_call by (simp add: sample_call_def stored_after_def)

lemma sample_silent_call:
  "transaction sample_config ''s'' [] 1000 ''u1'' sender_signal
     (no_payload\<lparr>pl_isTimedOut := Some True\<rparr>) sample_deciding =
   Inr \<lparr>senderId = Some ''u1'', receiverId = Some ''u2'', currentRound = 1,
      roundMap = [1 \<mapsto>
        \<lparr>roundNumber = 1, trueState = 2, status = WAITING_RECEIVER_DECIDE,
         senderReadyStart = Some True, receiverReadyStart = Some True,
         senderChoice = Null, senderLabel = Null, senderMessage = None,
         receiverChoice = None, defaultSenderChoice = Val B, defaultSenderLabel = Null,
         defaultReceiverChoice = None, senderTimedOut = True, receiverTimedOut = False,
         senderPayoff = Some 0, receiverPayoff = Some 0, senderReadyNext = None,
         receiverReadyNext = None, startTime = Some 1000,
         senderUnlockedTime = Some 1000, senderSubmittedTime = Some 1000,
         receiverSawMessageTime = None, receiverUnlockedTime = Some 1000,
         receiverSubmittedTime = None, senderReactionTimeSeconds = Some 0,
         receiverReactionTimeSeconds = None, senderActiveTimeSeconds = None,
         receiverActiveTimeSeconds = None\<rparr>]\<rparr>"
  unfolding sample_deciding_eq
  by (simp add: call_def sample_call_def transaction_def no_payload_def Let_def put_round_def
        stored_after_def truthy_def sample_pairSeed sample_roundDefaults_Suc sample_roundDefaults
        on_sender_signal_def sample_config_fields)

lemma sample_silent_eq:
  "sample_silent =
     \<lparr>senderId = Some ''u1'', receiverId = Some ''u2'', currentRound = 1,
      roundMap = [1 \<mapsto>
        \<lparr>roundNumber = 1, trueState = 2, status = WAITING_RECEIVER_DECIDE,
         senderReadyStart = Some True, receiverReadyStart = Some True,
         senderChoice = Null, senderLabel = Null, senderMessage = None,
         receiverChoice = None, defaultSenderChoice = Val B, defaultSenderLabel = Null,
         defaultReceiverChoice = None, senderTimedOut = True, receiverTimedOut = False,
         senderPayoff = Some 0, receiverPayoff = Some 0, senderReadyNext = None,
         receiverReadyNext = None, startTime = Some 1000,
         senderUnlockedTime = Some 1000, senderSubmittedTime = Some 1000,
         receiverSawMessageTime = None, receiverUnlockedTime = Some 1000,
         receiverSubmittedTime = None, senderReactionTimeSeconds = Some 0,
         receiverReactionTimeSeconds = None, senderActiveTimeSeconds = None,
         receiverActiveTimeSeconds = None\<rparr>]\<rparr>"
  unfolding sample_silent_def run_calls.simps call_def
  using sample_silent_call by (simp add: sample_call_def stored_after_def)

lemma sample_silent_feedback_call:
  "transaction sample_config ''s'' [] 1000 ''u2'' receiver_choice
     (no_payload\<lparr>pl_receiverChoice := Some A\<rparr>) sample_silent =
   Inr \<lparr>senderId = Some ''u1'', receiverId = Some ''u2'', currentRound = 1,
      roundMap = [1 \<mapsto>
        \<lparr>roundNumber = 1, trueState = 2, status = SHOW_FEEDBACK,
         senderReadyStart = Some True, receiverReadyStart = Some True,
         senderChoice = Null, senderLabel = Null, senderMessage = None,
         receiverChoice = Some A, defaultSenderChoice = Val B,
         defaultSenderLabel = Null, defaultReceiverChoice = Some B,
         senderTimedOut = True, receiverTimedOut = False, senderPayoff = Some 0,
         receiverPayoff = Some 0, senderReadyNext = None, receiverReadyNext = None,
         startTime = Some 1000, senderUnlockedTime = Some 1000,
         senderSubmittedTime = Some 1000, receiverSawMessageTime = None,
         receiverUnlockedTime = Some 1000, receiverSubmittedTime = Some 1000,
         senderReactionTimeSeconds = Some 0, receiverReactionTimeSeconds = Some 0,
         senderActiveTimeSeconds = None, receiverActiveTimeSeconds = None\<rparr>]\<rparr>"
  unfolding sample_silent_eq
  by (simp add: call_def sample_call_def transaction_def no_payload_def Let_def put_round_def
        stored_after_def truthy_def sample_pairSeed sample_roundDefaults_Suc sample_roundDefaults
        on_receiver_choice_def receiver_choice_payoffs_def sample_config_fields)

lemma sample_silent_feedback_eq:
  "sample_silent_feedback =
     \<lparr>senderId = Some ''u1'', receiverId = Some ''u2'', currentRound = 1,
      roundMap = [1 \<mapsto>
        \<lparr>roundNumber = 1, trueState = 2, status = SHOW_FEEDBACK,
         senderReadyStart = Some True, receiverReadyStart = Some True,
         senderChoice = Null, senderLabel = Null, senderMessage = None,
         receiverChoice = Some A, defaultSenderChoice = Val B,
         defaultSenderLabel = Null, defaultReceiverChoice = Some B,
         senderTimedOut = True, receiverTimedOut = False, senderPayoff = Some 0,
         receiverPayoff = Some 0, senderReadyNext = None, receiverReadyNext = None,
         startTime = Some 1000, senderUnlockedTime = Some 1000,
         senderSubmittedTime = Some 1000, receiverSawMessageTime = None,
         receiverUnlockedTime = Some 1000, receiverSubmittedTime = Some 1000,
         senderReactionTimeSeconds = Some 0, receiverReactionTimeSeconds = Some 0,
         senderActiveTimeSeconds = None, receiverActiveTimeSeconds = None\<rparr>]\<rparr>"
  unfolding sample_silent_feedback_def run_calls.simps call_def
  using sample_silent_feedback_call by (simp add: sample_call_def stored_after_def)

text \<open>
  Claim C6. For every round, \<open>senderPayoff\<close> and \<open>receiverPayoff\<close> are written exactly
  once and always together; when \<open>sender_signal\<close> has zero-forced both payoffs
  (\<open>requireParticipantClick\<close> with a timed-out sender), the later \<open>receiver_choice\<close>
  leaves them in place. The code breaks this on one path. \<open>sender_signal\<close> forces the
  zero on \<open>requireParticipantClick\<close> and \<open>isTimedOut\<close>, as its comment says, whatever
  choice the payload carries; \<open>receiver_choice\<close> keeps the zero only where the recorded
  \<open>senderChoice\<close> is null. In the sample game a timed-out \<open>sender_signal\<close> that
  carries choice \<open>A\<close> sets both payoffs to 0, and the receiver's choice \<open>A\<close> replaces
  them with 30 and 20. On the sibling path, the timed-out \<open>sender_signal\<close> without a
  choice, the same \<open>receiver_choice\<close> leaves 0 and 0.
\<close>

theorem zero_forced_payoffs_overwritten:
  "requireParticipantClick sample_config \<and>
   transaction sample_config ''s'' [] 1000 ''u1'' sender_signal
     (no_payload\<lparr>pl_senderChoice := Some A, pl_isTimedOut := Some True\<rparr>) sample_deciding
     = Inr sample_timed_out \<and>
   senderPayoff (the (roundMap sample_timed_out 1)) = Some 0 \<and>
   receiverPayoff (the (roundMap sample_timed_out 1)) = Some 0 \<and>
   transaction sample_config ''s'' [] 1000 ''u2'' receiver_choice
     (no_payload\<lparr>pl_receiverChoice := Some A\<rparr>) sample_timed_out
     = Inr sample_overwritten \<and>
   senderPayoff (the (roundMap sample_overwritten 1)) = Some 30 \<and>
   receiverPayoff (the (roundMap sample_overwritten 1)) = Some 20 \<and>
   transaction sample_config ''s'' [] 1000 ''u1'' sender_signal
     (no_payload\<lparr>pl_isTimedOut := Some True\<rparr>) sample_deciding
     = Inr sample_silent \<and>
   senderPayoff (the (roundMap sample_silent 1)) = Some 0 \<and>
   receiverPayoff (the (roundMap sample_silent 1)) = Some 0 \<and>
   transaction sample_config ''s'' [] 1000 ''u2'' receiver_choice
     (no_payload\<lparr>pl_receiverChoice := Some A\<rparr>) sample_silent
     = Inr sample_silent_feedback \<and>
   senderPayoff (the (roundMap sample_silent_feedback 1)) = Some 0 \<and>
   receiverPayoff (the (roundMap sample_silent_feedback 1)) = Some 0"
proof -
  have 1: "transaction sample_config ''s'' [] 1000 ''u1'' sender_signal
     (no_payload\<lparr>pl_senderChoice := Some A, pl_isTimedOut := Some True\<rparr>) sample_deciding
     = Inr sample_timed_out"
    unfolding sample_timed_out_call sample_timed_out_eq ..
  have 2: "transaction sample_config ''s'' [] 1000 ''u2'' receiver_choice
     (no_payload\<lparr>pl_receiverChoice := Some A\<rparr>) sample_timed_out
     = Inr sample_overwritten"
    unfolding sample_overwritten_call sample_overwritten_eq ..
  have 3: "senderPayoff (the (roundMap sample_timed_out 1)) = Some 0"
    "receiverPayoff (the (roundMap sample_timed_out 1)) = Some 0"
    by (simp_all add: sample_timed_out_eq)
  have 4: "senderPayoff (the (roundMap sample_overwritten 1)) = Some 30"
    "receiverPayoff (the (roundMap sample_overwritten 1)) = Some 20"
    by (simp_all add: sample_overwritten_eq)
  have 5: "transaction sample_config ''s'' [] 1000 ''u1'' sender_signal
     (no_payload\<lparr>pl_isTimedOut := Some True\<rparr>) sample_deciding
     = Inr sample_silent"
    unfolding sample_silent_call sample_silent_eq ..
  have 6: "transaction sample_config ''s'' [] 1000 ''u2'' receiver_choice
     (no_payload\<lparr>pl_receiverChoice := Some A\<rparr>) sample_silent
     = Inr sample_silent_feedback"
    unfolding sample_silent_feedback_call sample_silent_feedback_eq ..
  have 7: "senderPayoff (the (roundMap sample_silent 1)) = Some 0"
    "receiverPayoff (the (roundMap sample_silent 1)) = Some 0"
    by (simp_all add: sample_silent_eq)
  have 8: "senderPayoff (the (roundMap sample_silent_feedback 1)) = Some 0"
    "receiverPayoff (the (roundMap sample_silent_feedback 1)) = Some 0"
    by (simp_all add: sample_silent_feedback_eq)
  show ?thesis using 1 2 3 4 5 6 7 8 sample_config_fields(2) by simp
qed

lemma other_actions_keep_payoffs:
  assumes a: "act \<noteq> sender_signal" "act \<noteq> receiver_choice"
    and t: "transaction config stageId snapshot now userId act payload cur = Inr cur'"
    and r: "roundMap cur n = Some r"
  shows "\<exists>r'. roundMap cur' n = Some r' \<and>
           senderPayoff r' = senderPayoff r \<and> receiverPayoff r' = receiverPayoff r"
proof (cases "act = assign_role")
  case True
  then have o: "on_assign_role config stageId snapshot now userId payload cur = Inr cur'"
    using t by (simp add: transaction_def)
  have "roundMap cur' n = Some r" if "assign cur config stageId now userId ro = Inr cur'" for ro
    using effect_assign [OF that] r by (cases ro) auto
  then show ?thesis using effect_assign_role [OF o] r by auto
next
  case False
  then obtain rd where rd: "roundMap cur (currentRound cur) = Some rd"
    and pl: "senderId cur = Some userId \<or> receiverId cur = Some userId"
    using t by (auto simp: transaction_def Let_def split: if_splits option.splits)
  show ?thesis
  proof (cases act)
    case assign_role
    then show ?thesis using False by simp
  next
    case start_game
    then show ?thesis
      using t r rd unfolding transaction_round [OF False rd]
      by (auto simp: on_start_game_def Let_def split: if_splits)
  next
    case sender_signal
    then show ?thesis using a by simp
  next
    case receiver_saw_message
    then show ?thesis
      using t r rd unfolding transaction_round [OF False rd]
      by (auto simp: on_receiver_saw_message_def split: if_splits)
  next
    case receiver_choice
    then show ?thesis using a by simp
  next
    case next_round
    have n: "on_next_round config stageId now userId cur (currentRound cur) rd = Inr cur'"
      using t next_round pl unfolding transaction_round [OF False rd] by auto
    show ?thesis using effect_next_round [OF n pl] r rd by auto
  qed
qed

text \<open>
  What the handlers do to the payoffs on every path. The two payoffs are written
  together: in every reachable instance \<open>senderPayoff\<close> of a round is null exactly when
  \<open>receiverPayoff\<close> is. \<open>sender_signal\<close> sets both to 0 when \<open>requireParticipantClick\<close>
  holds and the submission is timed out, and leaves both as they are otherwise.
  \<open>receiver_choice\<close> writes the pair that \<open>receiver_choice_payoffs\<close> computes, which is
  0 and 0 where the recorded \<open>senderChoice\<close> is null. No other action changes a payoff.
\<close>

lemma payoffs_set_together:
  "(reachable config stageId cur \<and> roundMap cur n = Some r \<longrightarrow>
      (senderPayoff r = None \<longleftrightarrow> receiverPayoff r = None)) \<and>
   (roundMap cur (currentRound cur) = Some rd \<and>
      transaction config stageId snapshot now userId sender_signal payload cur = Inr cur1 \<longrightarrow>
      (\<exists>rd'. roundMap cur1 (currentRound cur) = Some rd' \<and>
         (requireParticipantClick config \<and> pl_isTimedOut payload = Some True \<longrightarrow>
            senderPayoff rd' = Some 0 \<and> receiverPayoff rd' = Some 0) \<and>
         (\<not> (requireParticipantClick config \<and> pl_isTimedOut payload = Some True) \<longrightarrow>
            senderPayoff rd' = senderPayoff rd \<and> receiverPayoff rd' = receiverPayoff rd))) \<and>
   (roundMap cur (currentRound cur) = Some rd \<and>
      transaction config stageId snapshot now userId receiver_choice payload cur = Inr cur2 \<longrightarrow>
      (\<exists>rd' c. pl_receiverChoice payload = Some c \<and>
         roundMap cur2 (currentRound cur) = Some rd' \<and>
         senderPayoff rd' = Some (fst (receiver_choice_payoffs config rd c)) \<and>
         receiverPayoff rd' = Some (snd (receiver_choice_payoffs config rd c)) \<and>
         (senderChoice rd = Null \<longrightarrow> senderPayoff rd' = Some 0 \<and> receiverPayoff rd' = Some 0))) \<and>
   (act \<noteq> sender_signal \<and> act \<noteq> receiver_choice \<and>
      transaction config stageId snapshot now userId act payload cur = Inr cur3 \<and>
      roundMap cur n = Some r \<longrightarrow>
      (\<exists>r'. roundMap cur3 n = Some r' \<and>
         senderPayoff r' = senderPayoff r \<and> receiverPayoff r' = receiverPayoff r))"
proof -
  have 1: "reachable config stageId cur \<and> roundMap cur n = Some r \<longrightarrow>
      (senderPayoff r = None \<longleftrightarrow> receiverPayoff r = None)"
    using reachable_paired paired_round by blast
  have 2: "roundMap cur (currentRound cur) = Some rd \<and>
      transaction config stageId snapshot now userId sender_signal payload cur = Inr cur1 \<longrightarrow>
      (\<exists>rd'. roundMap cur1 (currentRound cur) = Some rd' \<and>
         (requireParticipantClick config \<and> pl_isTimedOut payload = Some True \<longrightarrow>
            senderPayoff rd' = Some 0 \<and> receiverPayoff rd' = Some 0) \<and>
         (\<not> (requireParticipantClick config \<and> pl_isTimedOut payload = Some True) \<longrightarrow>
            senderPayoff rd' = senderPayoff rd \<and> receiverPayoff rd' = receiverPayoff rd))"
  proof (intro impI, elim conjE)
    assume rd: "roundMap cur (currentRound cur) = Some rd"
      and t: "transaction config stageId snapshot now userId sender_signal payload cur = Inr cur1"
    show "\<exists>rd'. roundMap cur1 (currentRound cur) = Some rd' \<and>
         (requireParticipantClick config \<and> pl_isTimedOut payload = Some True \<longrightarrow>
            senderPayoff rd' = Some 0 \<and> receiverPayoff rd' = Some 0) \<and>
         (\<not> (requireParticipantClick config \<and> pl_isTimedOut payload = Some True) \<longrightarrow>
            senderPayoff rd' = senderPayoff rd \<and> receiverPayoff rd' = receiverPayoff rd)"
      using t unfolding transaction_round [OF _ rd, of sender_signal, simplified]
      by (auto simp: on_sender_signal_def Let_def split: if_splits sum.splits)
  qed
  have 3: "roundMap cur (currentRound cur) = Some rd \<and>
      transaction config stageId snapshot now userId receiver_choice payload cur = Inr cur2 \<longrightarrow>
      (\<exists>rd' c. pl_receiverChoice payload = Some c \<and>
         roundMap cur2 (currentRound cur) = Some rd' \<and>
         senderPayoff rd' = Some (fst (receiver_choice_payoffs config rd c)) \<and>
         receiverPayoff rd' = Some (snd (receiver_choice_payoffs config rd c)) \<and>
         (senderChoice rd = Null \<longrightarrow> senderPayoff rd' = Some 0 \<and> receiverPayoff rd' = Some 0))"
  proof (intro impI, elim conjE)
    assume rd: "roundMap cur (currentRound cur) = Some rd"
      and t: "transaction config stageId snapshot now userId receiver_choice payload cur = Inr cur2"
    have z: "senderChoice rd = Null \<Longrightarrow> receiver_choice_payoffs config rd c = (0, 0)" for c
      by (simp add: receiver_choice_payoffs_def)
    show "\<exists>rd' c. pl_receiverChoice payload = Some c \<and>
         roundMap cur2 (currentRound cur) = Some rd' \<and>
         senderPayoff rd' = Some (fst (receiver_choice_payoffs config rd c)) \<and>
         receiverPayoff rd' = Some (snd (receiver_choice_payoffs config rd c)) \<and>
         (senderChoice rd = Null \<longrightarrow> senderPayoff rd' = Some 0 \<and> receiverPayoff rd' = Some 0)"
      using t z unfolding transaction_round [OF _ rd, of receiver_choice, simplified]
      by (auto simp: on_receiver_choice_def Let_def
          split: if_splits sum.splits option.splits prod.splits)
  qed
  have 4: "act \<noteq> sender_signal \<and> act \<noteq> receiver_choice \<and>
      transaction config stageId snapshot now userId act payload cur = Inr cur3 \<and>
      roundMap cur n = Some r \<longrightarrow>
      (\<exists>r'. roundMap cur3 n = Some r' \<and>
         senderPayoff r' = senderPayoff r \<and> receiverPayoff r' = receiverPayoff r)"
    using other_actions_keep_payoffs by blast
  show ?thesis using 1 2 3 4 by (intro conjI)
qed

section \<open>The claims on the sample game\<close>

lemma sample_first_call:
  "transaction sample_config ''s'' [] 1000 ''u1'' assign_role no_payload
     createSenderReceiverStagePublicData
   = Inr (createSenderReceiverStagePublicData\<lparr>senderId := Some ''u1''\<rparr>)"
  by (simp add: transaction_def on_assign_role_def no_payload_def
      createSenderReceiverStagePublicData_def falsy_def assign_def startGameIfReady_def Let_def)

lemma sample_second_call:
  "transaction sample_config ''s'' [] 1000 ''u2'' assign_role no_payload
     (createSenderReceiverStagePublicData\<lparr>senderId := Some ''u1''\<rparr>)
   = Inr sample_paired"
proof -
  have ps: "pairSeed \<lparr>senderId = Some ''u1'', receiverId = Some ''u2'', currentRound = Suc 0,
                      roundMap = Map.empty\<rparr> ''s'' = js_str ''u1-u2-s''"
    by (rule sample_pairSeed) simp_all
  show ?thesis
    unfolding sample_paired_eq
    by (simp add: transaction_def on_assign_role_def no_payload_def
        createSenderReceiverStagePublicData_def falsy_def assign_def startGameIfReady_def Let_def
        put_round_def createNewRound_def sample_roundDefaults_Suc ps)
qed


lemma sample_choice_call:
  "transaction sample_config ''s'' [] 1000 ''u2'' receiver_choice
     (no_payload\<lparr>pl_receiverChoice := Some B\<rparr>) sample_receiving = Inr sample_feedback"
  unfolding sample_feedback_eq unfolding sample_receiving_eq
  by (simp add: transaction_def no_payload_def Let_def put_round_def
      sample_pairSeed sample_roundDefaults_Suc sample_roundDefaults on_receiver_choice_def
      receiver_choice_payoffs_def sample_config_fields)

lemma sample_first_reachable:
  "reachable sample_config ''s'' (createSenderReceiverStagePublicData\<lparr>senderId := Some ''u1''\<rparr>)"
proof -
  have "call sample_config ''s'' (sample_call ''u1'' assign_role no_payload)
          createSenderReceiverStagePublicData
        = Inr (createSenderReceiverStagePublicData\<lparr>senderId := Some ''u1''\<rparr>)"
    using sample_first_call by (simp add: call_def sample_call_def)
  then show ?thesis using reachable_call [OF reachable_init] by blast
qed

text \<open>
  The hypotheses of C3 in the sample game: the receiver chooses \<open>B\<close> under hidden state 2.
\<close>

theorem receiver_choice_payoff_rules_witness:
  "transaction sample_config ''s'' [] 1000 ''u2'' receiver_choice
     (no_payload\<lparr>pl_receiverChoice := Some B\<rparr>) sample_receiving = Inr sample_feedback \<and>
   roundMap sample_receiving (currentRound sample_receiving)
     = Some (the (roundMap sample_receiving 1)) \<and>
   pl_receiverChoice (no_payload\<lparr>pl_receiverChoice := Some B\<rparr>) = Some B \<and>
   senderChoice (the (roundMap sample_receiving 1)) \<noteq> Null \<and>
   trueState (the (roundMap sample_receiving 1)) = 2 \<and>
   (\<exists>r'. roundMap sample_feedback (currentRound sample_receiving) = Some r' \<and>
      senderPayoff r' = Some (payoffSenderChoiceB2 sample_config) \<and>
      receiverPayoff r' = Some (payoffReceiverChoiceB2 sample_config))"
proof -
  have rd: "roundMap sample_receiving (currentRound sample_receiving)
              = Some (the (roundMap sample_receiving 1))"
    by (simp add: sample_receiving_eq)
  have pl: "pl_receiverChoice (no_payload\<lparr>pl_receiverChoice := Some B\<rparr>) = Some B" by simp
  have f: "senderChoice (the (roundMap sample_receiving 1)) \<noteq> Null"
    "trueState (the (roundMap sample_receiving 1)) = 2"
    by (simp_all add: sample_receiving_eq)
  show ?thesis
    using receiver_choice_payoff_rules [OF sample_choice_call rd pl] sample_choice_call rd pl f
    by auto
qed

text \<open>
  The hypothesis of C5 in the sample game: round 1 shows its feedback, and later calls of
  both participants leave its choices and payoffs alone.
\<close>

theorem rounds_never_regress_witness:
  "roundMap sample_feedback 1 = Some (the (roundMap sample_feedback 1)) \<and>
   status (the (roundMap sample_feedback 1)) = SHOW_FEEDBACK \<and>
   (\<exists>r'. roundMap (run_calls sample_config ''s''
               [sample_call ''u1'' sender_signal (no_payload\<lparr>pl_senderChoice := Some A\<rparr>),
                sample_call ''u2'' receiver_choice (no_payload\<lparr>pl_receiverChoice := Some A\<rparr>),
                sample_call ''u1'' next_round no_payload,
                sample_call ''u2'' next_round no_payload,
                sample_call ''u2'' receiver_choice (no_payload\<lparr>pl_receiverChoice := Some A\<rparr>)]
               sample_feedback) 1 = Some r' \<and>
      status r' = SHOW_FEEDBACK \<and>
      senderChoice r' = Val B \<and> receiverChoice r' = Some B \<and>
      senderPayoff r' = Some 20 \<and> receiverPayoff r' = Some 4)"
proof -
  have rd: "roundMap sample_feedback 1 = Some (the (roundMap sample_feedback 1))"
    by (simp add: sample_feedback_eq)
  have f: "status (the (roundMap sample_feedback 1)) = SHOW_FEEDBACK"
    "senderChoice (the (roundMap sample_feedback 1)) = Val B"
    "receiverChoice (the (roundMap sample_feedback 1)) = Some B"
    "senderPayoff (the (roundMap sample_feedback 1)) = Some 20"
    "receiverPayoff (the (roundMap sample_feedback 1)) = Some 4"
    by (simp_all add: sample_feedback_eq)
  show ?thesis
    using rounds_never_regress [OF rd, of sample_config "''s''"
        "[sample_call ''u1'' sender_signal (no_payload\<lparr>pl_senderChoice := Some A\<rparr>),
          sample_call ''u2'' receiver_choice (no_payload\<lparr>pl_receiverChoice := Some A\<rparr>),
          sample_call ''u1'' next_round no_payload,
          sample_call ''u2'' next_round no_payload,
          sample_call ''u2'' receiver_choice (no_payload\<lparr>pl_receiverChoice := Some A\<rparr>)]"]
      rd f by auto
qed

text \<open>The hypotheses of C9 in the sample game: the second pairing creates round 1.\<close>

theorem assign_role_creates_first_round_witness:
  "reachable sample_config ''s'' (createSenderReceiverStagePublicData\<lparr>senderId := Some ''u1''\<rparr>) \<and>
   transaction sample_config ''s'' [] 1000 ''u2'' assign_role no_payload
     (createSenderReceiverStagePublicData\<lparr>senderId := Some ''u1''\<rparr>) = Inr sample_paired \<and>
   senderId sample_paired \<noteq> None \<and> receiverId sample_paired \<noteq> None \<and>
   roundMap (createSenderReceiverStagePublicData\<lparr>senderId := Some ''u1''\<rparr>) 1 = None \<and>
   (\<exists>r1. roundMap sample_paired 1 = Some r1 \<and> status r1 = WAITING_BOTH_START) \<and>
   currentRound sample_paired = 1 \<and>
   historicalRole ''s'' ''u1'' [] None = None \<and> 1 \<le> numRounds sample_config \<and>
   0 \<le> probability sample_config \<and> probability sample_config \<le> 1 \<and>
   (\<exists>c1 c2 r1.
      transaction sample_config ''s'' [] 1000 ''u1'' assign_role no_payload
        createSenderReceiverStagePublicData = Inr c1 \<and>
      roundMap c1 = Map.empty \<and>
      transaction sample_config ''s'' [] 1000 ''u2'' assign_role no_payload c1 = Inr c2 \<and>
      senderId c2 = Some ''u1'' \<and> receiverId c2 = Some ''u2'' \<and>
      roundMap c2 = [1 \<mapsto> r1] \<and> status r1 = WAITING_BOTH_START \<and> currentRound c2 = 1)"
proof -
  have h1: "senderId sample_paired \<noteq> None" "receiverId sample_paired \<noteq> None"
    "roundMap (createSenderReceiverStagePublicData\<lparr>senderId := Some ''u1''\<rparr>) 1 = None"
    "''u2'' \<noteq> []"
    by (simp_all add: sample_paired_eq createSenderReceiverStagePublicData_def)
  have h2: "''u1'' \<noteq> []" "''u1'' \<noteq> ''u2''" "pl_requestedRole no_payload = None"
    "historicalRole ''s'' ''u1'' [] None = None" "historicalRole ''s'' ''u2'' [] None = None"
    "1 \<le> numRounds sample_config" "0 \<le> probability sample_config"
    "probability sample_config \<le> 1"
    by (simp_all add: no_payload_def sample_config_def createSenderReceiverStage_def
        probability_def)
  show ?thesis
    using assign_role_creates_first_round
      [where config = sample_config and stageId = "''s''"
         and cur = "createSenderReceiverStagePublicData\<lparr>senderId := Some ''u1''\<rparr>"
         and userId = "''u2''" and snapshot = "[]" and now = 1000 and payload = no_payload
         and cur' = sample_paired and ?u1.0 = "''u1''" and ?u2.0 = "''u2''"
         and ?p1.0 = no_payload and ?p2.0 = no_payload and ?snapshot1.0 = "[]"
         and ?snapshot2.0 = "[]" and ?now1.0 = 1000 and ?now2.0 = 1000]
      sample_first_reachable sample_second_call h1 h2
    by blast
qed

text \<open>The hypotheses of C1 in the sample game, after round 1 of 2.\<close>

theorem next_round_advances_exactly_once_witness:
  "reachable sample_config ''s'' sample_feedback \<and>
   roundMap sample_feedback (currentRound sample_feedback)
     = Some (the (roundMap sample_feedback 1)) \<and>
   status (the (roundMap sample_feedback 1)) = SHOW_FEEDBACK \<and>
   senderId sample_feedback = Some ''u1'' \<and> receiverId sample_feedback = Some ''u2'' \<and>
   \<not> truthy (senderReadyNext (the (roundMap sample_feedback 1))) \<and>
   \<not> truthy (receiverReadyNext (the (roundMap sample_feedback 1))) \<and>
   currentRound sample_feedback + 1 \<le> numRounds sample_config \<and>
   (let c1 = stored_after sample_feedback
               (transaction sample_config ''s'' [] 1000 ''u1'' next_round no_payload sample_feedback);
        c2 = stored_after c1
               (transaction sample_config ''s'' [] 2000 ''u2'' next_round no_payload c1);
        c3 = stored_after c2
               (transaction sample_config ''s'' [] 3000 ''u1'' next_round no_payload c2)
    in currentRound c2 = currentRound sample_feedback + 1 \<and> c3 = c2 \<and>
       c1 = put_round sample_feedback (currentRound sample_feedback)
              ((the (roundMap sample_feedback 1))\<lparr>senderReadyNext := Some True\<rparr>) \<and>
       (\<exists>nr. roundMap c2 (currentRound sample_feedback + 1) = Some nr \<and>
          status nr = WAITING_SENDER_DECIDE))"
proof -
  have rd: "roundMap sample_feedback (currentRound sample_feedback)
              = Some (the (roundMap sample_feedback 1))"
    by (simp add: sample_feedback_eq)
  have f: "status (the (roundMap sample_feedback 1)) = SHOW_FEEDBACK"
    "senderId sample_feedback = Some ''u1''" "receiverId sample_feedback = Some ''u2''"
    by (simp_all add: sample_feedback_eq)
  have g: "\<not> truthy (senderReadyNext (the (roundMap sample_feedback 1)))"
    "\<not> truthy (receiverReadyNext (the (roundMap sample_feedback 1)))"
    "currentRound sample_feedback + 1 \<le> numRounds sample_config"
    by (simp_all add: sample_feedback_eq truthy_def sample_config_fields)
  show ?thesis
    using next_round_advances_exactly_once [OF sample_reachable(4) rd f,
        where snapshotA = "[]" and nowA = 1000 and payloadA = no_payload
          and snapshotB = "[]" and nowB = 2000 and payloadB = no_payload
          and snapshotC = "[]" and nowC = 3000 and payloadC = no_payload and third = "''u1''"]
      sample_reachable(4) rd f g
    unfolding Let_def by blast
qed


end
